theory Spec2Isabelle
  imports Complex_Main
begin

section \<open>Numbers, typed arrays and parameters\<close>

text \<open>
  The JavaScript variant computes with binary64 numbers and keeps its two grids in
  \<open>Float32Array\<close>s; the WebGL variant computes in a fragment shader with GLSL floats. The
  arithmetic is read in two ways.

  In the exact reading a number is a real and a \<open>Float32Array\<close> is a list of reals. It is
  used for the initialisation, which stores only 0 and 1, and for comparing the step
  kernels of the two variants and the texture that \<open>render\<close> binds, where the two sides
  differ by far more than any rounding.

  In the floating-point reading a number is a \<open>jsnum\<close>: a finite real, an infinity or NaN.
  Every operation of the JavaScript variant rounds its exact result to binary64 and every
  store to a \<open>Float32Array\<close> rounds to float32. The bounds on the concentrations, the fixed
  point, the Laplacian and the intensity mapper are stated in this reading, for the
  JavaScript variant. The shader is not given a floating-point reading: GLSL ES 3.00
  leaves the rounding mode, the precision of division and of \<open>pow\<close>, the result of a
  division by zero and the generation of NaN to the implementation.

  The two grids hold two entries per cell, \<open>a\<close> at \<open>(y * width + x) * 2\<close> and \<open>b\<close> right after
  it.
\<close>

type_synonym Float32Array = "real list"

definition new_Float32Array :: "nat \<Rightarrow> Float32Array" where
  "new_Float32Array n = replicate n 0"

text \<open>
  JavaScript's \<open>%\<close> on integers truncates towards zero: the result has the sign of the
  dividend. (A zero divisor gives NaN in JavaScript; every use below has a divisor of at
  least 1.)
\<close>

definition js_rem :: "int \<Rightarrow> int \<Rightarrow> int" where
  "js_rem a b = sgn a * (\<bar>a\<bar> mod \<bar>b\<bar>)"

text \<open>
  A store to a typed array at an index outside \<open>0 ..< length\<close> is ignored. A load is only
  meaningful inside that range (outside it JavaScript yields \<open>undefined\<close>); the lemma
  \<open>nb_idx_range\<close> below shows that every load of the step kernel is inside.
\<close>

definition f32_set :: "Float32Array \<Rightarrow> int \<Rightarrow> real \<Rightarrow> Float32Array" where
  "f32_set arr idx v = (if 0 \<le> idx \<and> nat idx < length arr then arr[nat idx := v] else arr)"

definition f32_get :: "Float32Array \<Rightarrow> int \<Rightarrow> real" where
  "f32_get arr idx = arr ! nat idx"

record Params =
  dA :: real
  dB :: real
  feed :: real
  feedDiff :: real
  killMin :: real
  killMax :: real
  iterations :: nat
  feedVariation :: real
  sharpness :: real
  threshold :: real

definition default_params :: Params where
  "default_params = \<lparr> dA = 1.0, dB = 0.5, feed = 0.03, feedDiff = 0.015,
     killMin = 0.056, killMax = 0.059, iterations = 8, feedVariation = 50,
     sharpness = 0.1, threshold = 0.5 \<rparr>"

section \<open>The sequential step kernel in exact arithmetic (App.tsx, computeStep)\<close>

record Sim =
  canvasRef :: "(nat \<times> nat) option"
  currentGridRef :: "Float32Array option"
  nextGridRef :: "Float32Array option"

definition feedRate :: "Params \<Rightarrow> real" where
  "feedRate p = feed p + ((feedVariation p - 50) * feedDiff p) / 100"

definition killRate :: "Params \<Rightarrow> nat \<Rightarrow> nat \<Rightarrow> real" where
  "killRate p width x =
     (let normalizedX = real x / real width
      in killMin p + normalizedX * (killMax p - killMin p))"

definition weight :: "int \<Rightarrow> int \<Rightarrow> real" where
  "weight dx dy =
     (let w = 0.05;
          w = (if dx = 0 \<or> dy = 0 then 0.2 else w);
          w = (if dx = 0 \<and> dy = 0 then - 1.0 else w)
      in w)"

definition nb_idx :: "nat \<Rightarrow> nat \<Rightarrow> nat \<Rightarrow> nat \<Rightarrow> int \<Rightarrow> int \<Rightarrow> int" where
  "nb_idx width height x y dx dy =
     (let px = js_rem (int x + dx + int width) (int width);
          py = js_rem (int y + dy + int height) (int height)
      in (py * int width + px) * 2)"

definition laplace_acc ::
  "nat \<Rightarrow> nat \<Rightarrow> Float32Array \<Rightarrow> nat \<Rightarrow> nat \<Rightarrow> int \<Rightarrow> int \<Rightarrow> real \<times> real \<Rightarrow> real \<times> real" where
  "laplace_acc width height cur x y dy dx acc =
     (let idx = nb_idx width height x y dx dy;
          w = weight dx dy
      in (fst acc + f32_get cur idx * w, snd acc + f32_get cur (idx + 1) * w))"

definition laplace :: "nat \<Rightarrow> nat \<Rightarrow> Float32Array \<Rightarrow> nat \<Rightarrow> nat \<Rightarrow> real \<times> real" where
  "laplace width height cur x y =
     fold (\<lambda>dy. fold (\<lambda>dx. laplace_acc width height cur x y dy dx) [- 1, 0, 1])
       [- 1, 0, 1] (0, 0)"

definition step_cell ::
  "Params \<Rightarrow> nat \<Rightarrow> nat \<Rightarrow> Float32Array \<Rightarrow> nat \<Rightarrow> nat \<Rightarrow> Float32Array \<Rightarrow> Float32Array" where
  "step_cell p width height cur y x nxt =
     (let i = (y * width + x) * 2;
          (laplaceA, laplaceB) = laplace width height cur x y;
          a = cur ! i;
          b = cur ! (i + 1);
          nxt = nxt[i := a + (laplaceA * dA p - a * b * b + feedRate p * (1 - a))];
          nxt = nxt[i + 1 :=
                  b + (laplaceB * dB p + a * b * b - (feedRate p + killRate p width x) * b)];
          nxt = nxt[i := max 0 (min 1 (nxt ! i))];
          nxt = nxt[i + 1 := max 0 (min 1 (nxt ! (i + 1)))]
      in nxt)"

definition step_grid ::
  "Params \<Rightarrow> nat \<Rightarrow> nat \<Rightarrow> Float32Array \<Rightarrow> Float32Array \<Rightarrow> Float32Array" where
  "step_grid p width height cur nxt =
     fold (\<lambda>y. fold (\<lambda>x. step_cell p width height cur y x) [0..<width]) [0..<height] nxt"

definition computeStep :: "Params \<Rightarrow> Sim \<Rightarrow> Sim" where
  "computeStep p s =
     (case (canvasRef s, currentGridRef s, nextGridRef s) of
        (Some (width, height), Some cur, Some nxt) \<Rightarrow>
          s\<lparr> currentGridRef := Some (step_grid p width height cur nxt),
             nextGridRef := Some cur \<rparr>
      | _ \<Rightarrow> s)"

subsection \<open>Initialisation (App.tsx, initGrid)\<close>

text \<open>
  \<open>Math.random\<close> is a parameter: \<open>random k\<close> is the result of the \<open>k\<close>-th call, a real in
  \<open>[0, 1)\<close>. Spot \<open>i\<close> uses the calls \<open>2 * i\<close> (for \<open>x\<close>) and \<open>2 * i + 1\<close> (for \<open>y\<close>).
\<close>

definition fill_A :: "Float32Array \<Rightarrow> Float32Array" where
  "fill_A g = fold (\<lambda>j g. g[2 * j := 1, 2 * j + 1 := 0]) [0..<(length g + 1) div 2] g"

definition spot_cell ::
  "nat \<Rightarrow> nat \<Rightarrow> int \<Rightarrow> int \<Rightarrow> int \<Rightarrow> int \<Rightarrow> Float32Array \<Rightarrow> Float32Array" where
  "spot_cell width height x y dy dx g =
     (let radius = 3;
          px = js_rem (x + dx + int width) (int width);
          py = js_rem (y + dy + int height) (int height)
      in if dx * dx + dy * dy \<le> radius * radius then
           (let idx = (py * int width + px) * 2
            in f32_set (f32_set g idx 0) (idx + 1) 1)
         else g)"

definition add_spot :: "nat \<Rightarrow> nat \<Rightarrow> int \<Rightarrow> int \<Rightarrow> Float32Array \<Rightarrow> Float32Array" where
  "add_spot width height x y g =
     fold (\<lambda>dy. fold (\<lambda>dx. spot_cell width height x y dy dx) [- 3..3]) [- 3..3] g"

definition seed_x :: "(nat \<Rightarrow> real) \<Rightarrow> nat \<Rightarrow> nat \<Rightarrow> int" where
  "seed_x random width i = \<lfloor>random (2 * i) * real width\<rfloor>"

definition seed_y :: "(nat \<Rightarrow> real) \<Rightarrow> nat \<Rightarrow> nat \<Rightarrow> int" where
  "seed_y random height i = \<lfloor>random (2 * i + 1) * real height\<rfloor>"

definition initGrid :: "(nat \<Rightarrow> real) \<Rightarrow> Sim \<Rightarrow> Sim" where
  "initGrid random s =
     (case canvasRef s of
        None \<Rightarrow> s
      | Some (width, height) \<Rightarrow>
          (let cur = fill_A (new_Float32Array (width * height * 2));
               nxt = new_Float32Array (width * height * 2);
               cur = fold (\<lambda>i. add_spot width height (seed_x random width i)
                                  (seed_y random height i)) [0..<20] cur
           in s\<lparr> currentGridRef := Some cur, nextGridRef := Some nxt \<rparr>))"

section \<open>Binary64 and float32 arithmetic\<close>

text \<open>
  A JavaScript number is a finite binary64 number, an infinity or NaN. The two zeros are
  not distinguished: the program never divides by a computed negative zero, and
  \<open>Math.max(0, x)\<close> returns the positive zero.
\<close>

datatype jsnum = Num real | PosInf | NegInf | NaN

text \<open>
  Rounding as IEEE 754 defines it, to nearest with ties to even. \<open>rne\<close> rounds a real to an
  integer. \<open>round_to p emin x\<close> rounds \<open>x\<close> to \<open>p\<close> significant bits: to the nearest multiple
  of \<open>2 ^ q\<close>, where \<open>q = expo x - p + 1\<close> and \<open>expo x\<close> is the exponent of the leading bit of
  \<open>x\<close>, but \<open>q\<close> not below \<open>emin\<close> (the subnormal numbers). \<open>fl64\<close> is the rounding to binary64
  (53 bits, multiples of \<open>2 ^ - 1074\<close>), \<open>fl32\<close> the rounding to float32 (24 bits, multiples
  of \<open>2 ^ - 149\<close>); a number that rounds to \<open>2 ^ 1024\<close> (or \<open>2 ^ 128\<close>) or beyond becomes an
  infinity. \<open>to_f32\<close> is the store of a number into a \<open>Float32Array\<close>.
\<close>

definition rne :: "real \<Rightarrow> int" where
  "rne y =
     (let f = \<lfloor>y\<rfloor>;
          r = y - of_int f
      in if r < 1 / 2 then f else if 1 / 2 < r then f + 1 else if even f then f else f + 1)"

definition expo :: "real \<Rightarrow> int" where
  "expo x = \<lfloor>log 2 \<bar>x\<bar>\<rfloor>"

definition round_to :: "int \<Rightarrow> int \<Rightarrow> real \<Rightarrow> real" where
  "round_to p emin x =
     (if x = 0 then 0
      else (let q = max (expo x - p + 1) emin
            in of_int (rne (x / 2 powi q)) * 2 powi q))"

definition fl64 :: "real \<Rightarrow> jsnum" where
  "fl64 x =
     (let y = round_to 53 (- 1074) x
      in if 2 ^ 1024 \<le> \<bar>y\<bar> then (if 0 < x then PosInf else NegInf) else Num y)"

definition fl32 :: "real \<Rightarrow> jsnum" where
  "fl32 x =
     (let y = round_to 24 (- 149) x
      in if 2 ^ 128 \<le> \<bar>y\<bar> then (if 0 < x then PosInf else NegInf) else Num y)"

definition to_f32 :: "jsnum \<Rightarrow> jsnum" where
  "to_f32 v = (case v of Num x \<Rightarrow> fl32 x | _ \<Rightarrow> v)"

text \<open>
  The arithmetic operators: the exact result, rounded; the rules for the infinities and
  NaN are those of IEEE 754. \<open>js_le\<close> is the comparison \<open>\<le>\<close>, false when an operand is NaN.
\<close>

fun js_add :: "jsnum \<Rightarrow> jsnum \<Rightarrow> jsnum" where
  "js_add (Num x) (Num y) = fl64 (x + y)"
| "js_add NaN v = NaN"
| "js_add u NaN = NaN"
| "js_add PosInf NegInf = NaN"
| "js_add NegInf PosInf = NaN"
| "js_add PosInf v = PosInf"
| "js_add u PosInf = PosInf"
| "js_add NegInf v = NegInf"
| "js_add u NegInf = NegInf"

fun js_sub :: "jsnum \<Rightarrow> jsnum \<Rightarrow> jsnum" where
  "js_sub (Num x) (Num y) = fl64 (x - y)"
| "js_sub NaN v = NaN"
| "js_sub u NaN = NaN"
| "js_sub PosInf PosInf = NaN"
| "js_sub NegInf NegInf = NaN"
| "js_sub PosInf v = PosInf"
| "js_sub u PosInf = NegInf"
| "js_sub NegInf v = NegInf"
| "js_sub u NegInf = PosInf"

fun js_mul :: "jsnum \<Rightarrow> jsnum \<Rightarrow> jsnum" where
  "js_mul (Num x) (Num y) = fl64 (x * y)"
| "js_mul NaN v = NaN"
| "js_mul u NaN = NaN"
| "js_mul PosInf (Num y) = (if y = 0 then NaN else if 0 < y then PosInf else NegInf)"
| "js_mul NegInf (Num y) = (if y = 0 then NaN else if 0 < y then NegInf else PosInf)"
| "js_mul (Num x) PosInf = (if x = 0 then NaN else if 0 < x then PosInf else NegInf)"
| "js_mul (Num x) NegInf = (if x = 0 then NaN else if 0 < x then NegInf else PosInf)"
| "js_mul PosInf PosInf = PosInf"
| "js_mul PosInf NegInf = NegInf"
| "js_mul NegInf PosInf = NegInf"
| "js_mul NegInf NegInf = PosInf"

fun js_div :: "jsnum \<Rightarrow> jsnum \<Rightarrow> jsnum" where
  "js_div (Num x) (Num y) =
     (if y = 0 then (if x = 0 then NaN else if 0 < x then PosInf else NegInf)
      else fl64 (x / y))"
| "js_div NaN v = NaN"
| "js_div u NaN = NaN"
| "js_div (Num x) PosInf = Num 0"
| "js_div (Num x) NegInf = Num 0"
| "js_div PosInf (Num y) = (if 0 \<le> y then PosInf else NegInf)"
| "js_div NegInf (Num y) = (if 0 \<le> y then NegInf else PosInf)"
| "js_div PosInf PosInf = NaN"
| "js_div PosInf NegInf = NaN"
| "js_div NegInf PosInf = NaN"
| "js_div NegInf NegInf = NaN"

fun js_le :: "jsnum \<Rightarrow> jsnum \<Rightarrow> bool" where
  "js_le (Num x) (Num y) = (x \<le> y)"
| "js_le NaN v = False"
| "js_le u NaN = False"
| "js_le NegInf v = True"
| "js_le u PosInf = True"
| "js_le PosInf v = False"
| "js_le u NegInf = False"

fun Math_min :: "real \<Rightarrow> jsnum \<Rightarrow> jsnum" where
  "Math_min c (Num r) = Num (min c r)"
| "Math_min c PosInf = Num c"
| "Math_min c NegInf = NegInf"
| "Math_min c NaN = NaN"

fun Math_max :: "real \<Rightarrow> jsnum \<Rightarrow> jsnum" where
  "Math_max c (Num r) = Num (max c r)"
| "Math_max c PosInf = PosInf"
| "Math_max c NegInf = Num c"
| "Math_max c NaN = NaN"

text \<open>
  \<open>Math.pow\<close> as ECMAScript defines it. The language fixes the special cases; for a finite
  non-zero base and a finite non-zero exponent the result is an implementation-approximated
  value, for which \<open>host_pow\<close> stands. A statement below that needs a property of the
  engine's function has it as a hypothesis.
\<close>

definition Math_pow :: "(real \<Rightarrow> real \<Rightarrow> jsnum) \<Rightarrow> jsnum \<Rightarrow> jsnum \<Rightarrow> jsnum" where
  "Math_pow host_pow base exponent =
     (case exponent of
        NaN \<Rightarrow> NaN
      | Num y \<Rightarrow>
          if y = 0 then Num 1
          else (case base of
                  NaN \<Rightarrow> NaN
                | PosInf \<Rightarrow> if 0 < y then PosInf else Num 0
                | NegInf \<Rightarrow>
                    if 0 < y then (if frac y = 0 \<and> odd \<lfloor>y\<rfloor> then NegInf else PosInf)
                    else Num 0
                | Num x \<Rightarrow>
                    if x = 0 then (if 0 < y then Num 0 else PosInf)
                    else if x < 0 \<and> frac y \<noteq> 0 then NaN
                    else host_pow x y)
      | PosInf \<Rightarrow>
          (case base of
             NaN \<Rightarrow> NaN
           | Num x \<Rightarrow>
               if 1 < \<bar>x\<bar> then PosInf else if \<bar>x\<bar> = 1 then NaN else Num 0
           | _ \<Rightarrow> PosInf)
      | NegInf \<Rightarrow>
          (case base of
             NaN \<Rightarrow> NaN
           | Num x \<Rightarrow>
               if 1 < \<bar>x\<bar> then Num 0 else if \<bar>x\<bar> = 1 then NaN else PosInf
           | _ \<Rightarrow> Num 0))"

fun Math_round :: "jsnum \<Rightarrow> jsnum" where
  "Math_round (Num x) = Num (of_int \<lfloor>x + 1 / 2\<rfloor>)"
| "Math_round v = v"

text \<open>
  A store into the \<open>Uint8ClampedArray\<close> of the image: NaN is stored as 0, everything else
  is rounded to an integer, ties to even, and clamped to \<open>0..255\<close>.
\<close>

fun to_uint8_clamped :: "jsnum \<Rightarrow> nat" where
  "to_uint8_clamped (Num x) = nat (max 0 (min 255 (rne x)))"
| "to_uint8_clamped PosInf = 255"
| "to_uint8_clamped NegInf = 0"
| "to_uint8_clamped NaN = 0"

section \<open>The sequential step kernel in floating point (App.tsx, computeStep)\<close>

text \<open>
  The same loop as above, operation by operation, with the rounding of each operation and
  of each store. A parameter holds the binary64 number nearest to its value (a number
  literal and \<open>parseFloat\<close> both round to nearest), so the kernel reads
  \<open>fl64 (feed p)\<close>; the integer literals and the loop counters are exact. A load outside
  the array does not occur (lemma \<open>grid_reads\<close>).
\<close>

record Sim64 =
  canvas64 :: "(nat \<times> nat) option"
  currentGrid64 :: "jsnum list option"
  nextGrid64 :: "jsnum list option"

definition cells_get :: "jsnum list \<Rightarrow> int \<Rightarrow> jsnum" where
  "cells_get arr idx = arr ! nat idx"

definition feedRate64 :: "Params \<Rightarrow> jsnum" where
  "feedRate64 p =
     js_add (fl64 (feed p))
       (js_div (js_mul (js_sub (fl64 (feedVariation p)) (Num 50)) (fl64 (feedDiff p))) (Num 100))"

definition killRate64 :: "Params \<Rightarrow> nat \<Rightarrow> nat \<Rightarrow> jsnum" where
  "killRate64 p width x =
     (let normalizedX = js_div (Num (real x)) (Num (real width))
      in js_add (fl64 (killMin p)) (js_mul normalizedX (js_sub (fl64 (killMax p)) (fl64 (killMin p)))))"

definition weight64 :: "int \<Rightarrow> int \<Rightarrow> jsnum" where
  "weight64 dx dy = fl64 (weight dx dy)"

definition laplace_acc64 ::
  "nat \<Rightarrow> nat \<Rightarrow> jsnum list \<Rightarrow> nat \<Rightarrow> nat \<Rightarrow> int \<Rightarrow> int \<Rightarrow> jsnum \<times> jsnum \<Rightarrow> jsnum \<times> jsnum" where
  "laplace_acc64 width height cur x y dy dx acc =
     (let idx = nb_idx width height x y dx dy;
          w = weight64 dx dy
      in (js_add (fst acc) (js_mul (cells_get cur idx) w),
          js_add (snd acc) (js_mul (cells_get cur (idx + 1)) w)))"

definition laplace64 :: "nat \<Rightarrow> nat \<Rightarrow> jsnum list \<Rightarrow> nat \<Rightarrow> nat \<Rightarrow> jsnum \<times> jsnum" where
  "laplace64 width height cur x y =
     fold (\<lambda>dy. fold (\<lambda>dx. laplace_acc64 width height cur x y dy dx) [- 1, 0, 1])
       [- 1, 0, 1] (Num 0, Num 0)"

definition step_cell64 ::
  "Params \<Rightarrow> nat \<Rightarrow> nat \<Rightarrow> jsnum list \<Rightarrow> nat \<Rightarrow> nat \<Rightarrow> jsnum list \<Rightarrow> jsnum list" where
  "step_cell64 p width height cur y x nxt =
     (let i = (y * width + x) * 2;
          (laplaceA, laplaceB) = laplace64 width height cur x y;
          a = cur ! i;
          b = cur ! (i + 1);
          nxt = nxt[i := to_f32
                  (js_add a (js_add (js_sub (js_mul laplaceA (fl64 (dA p))) (js_mul (js_mul a b) b))
                               (js_mul (feedRate64 p) (js_sub (Num 1) a))))];
          nxt = nxt[i + 1 := to_f32
                  (js_add b (js_sub (js_add (js_mul laplaceB (fl64 (dB p))) (js_mul (js_mul a b) b))
                               (js_mul (js_add (feedRate64 p) (killRate64 p width x)) b)))];
          nxt = nxt[i := to_f32 (Math_max 0 (Math_min 1 (nxt ! i)))];
          nxt = nxt[i + 1 := to_f32 (Math_max 0 (Math_min 1 (nxt ! (i + 1))))]
      in nxt)"

definition step_grid64 ::
  "Params \<Rightarrow> nat \<Rightarrow> nat \<Rightarrow> jsnum list \<Rightarrow> jsnum list \<Rightarrow> jsnum list" where
  "step_grid64 p width height cur nxt =
     fold (\<lambda>y. fold (\<lambda>x. step_cell64 p width height cur y x) [0..<width]) [0..<height] nxt"

definition computeStep64 :: "Params \<Rightarrow> Sim64 \<Rightarrow> Sim64" where
  "computeStep64 p s =
     (case (canvas64 s, currentGrid64 s, nextGrid64 s) of
        (Some (width, height), Some cur, Some nxt) \<Rightarrow>
          s\<lparr> currentGrid64 := Some (step_grid64 p width height cur nxt),
             nextGrid64 := Some cur \<rparr>
      | _ \<Rightarrow> s)"


subsection \<open>One update request (App.tsx, update)\<close>

definition update_loop :: "Params \<Rightarrow> Sim64 \<Rightarrow> Sim64" where
  "update_loop p s = fold (\<lambda>i. computeStep64 p) [0..<iterations p] s"

section \<open>The intensity mapper (App.tsx, render)\<close>

text \<open>
  The mapper reads the concentration \<open>a\<close> of a cell, a float32 number, and computes in
  binary64. The literal \<open>0.9\<close> is the binary64 number nearest to 0.9.
\<close>

definition gs_map :: "Params \<Rightarrow> jsnum \<Rightarrow> jsnum" where
  "gs_map p a =
     (let gs = a
      in js_div (js_sub gs (fl64 (threshold p))) (js_sub (fl64 0.9) (fl64 (threshold p))))"

definition mapped :: "Params \<Rightarrow> jsnum \<Rightarrow> jsnum" where
  "mapped p a = Math_max 0 (Math_min 1 (gs_map p a))"

definition sharpValue :: "(real \<Rightarrow> real \<Rightarrow> jsnum) \<Rightarrow> Params \<Rightarrow> jsnum \<Rightarrow> jsnum" where
  "sharpValue host_pow p a = Math_pow host_pow (mapped p a) (fl64 (sharpness p))"

definition final :: "(real \<Rightarrow> real \<Rightarrow> jsnum) \<Rightarrow> Params \<Rightarrow> jsnum \<Rightarrow> jsnum" where
  "final host_pow p a = Math_round (js_mul (sharpValue host_pow p a) (Num 255))"

definition render_pixel :: "(real \<Rightarrow> real \<Rightarrow> jsnum) \<Rightarrow> Params \<Rightarrow> jsnum \<Rightarrow> nat list" where
  "render_pixel host_pow p a =
     [to_uint8_clamped (final host_pow p a), to_uint8_clamped (final host_pow p a),
      to_uint8_clamped (final host_pow p a), 255]"

definition render :: "(real \<Rightarrow> real \<Rightarrow> jsnum) \<Rightarrow> Params \<Rightarrow> Sim64 \<Rightarrow> nat list option" where
  "render host_pow p s =
     (case currentGrid64 s of
        None \<Rightarrow> None
      | Some cur \<Rightarrow>
          Some (concat (map (\<lambda>j. render_pixel host_pow p (cur ! (2 * j)))
                          [0..<(length cur + 1) div 2])))"

definition update ::
  "(real \<Rightarrow> real \<Rightarrow> jsnum) \<Rightarrow> Params \<Rightarrow> Sim64 \<Rightarrow> Sim64 \<times> nat list option" where
  "update host_pow p s = (let s' = update_loop p s in (s', render host_pow p s'))"

section \<open>The WebGL variant (second source file)\<close>

text \<open>
  An \<open>RGBA32F\<close> texture is its size and its texels, four floats each, row by row, as
  \<open>texImage2D\<close> takes them from a \<open>Float32Array\<close>. Both textures are created with
  \<open>NEAREST\<close> filtering and \<open>REPEAT\<close> wrapping, so a lookup at the normalised coordinate
  \<open>(u, v)\<close> keeps the fractional part of each coordinate and returns the texel whose cell
  contains it.
\<close>

record Texture =
  tex_width :: nat
  tex_height :: nat
  tex_data :: Float32Array

type_synonym vec2 = "real \<times> real"

type_synonym vec4 = "real \<times> real \<times> real \<times> real"

definition texture :: "Texture \<Rightarrow> vec2 \<Rightarrow> vec4" where
  "texture t uv =
     (let tx = nat \<lfloor>frac (fst uv) * real (tex_width t)\<rfloor>;
          ty = nat \<lfloor>frac (snd uv) * real (tex_height t)\<rfloor>;
          k = (ty * tex_width t + tx) * 4
      in (tex_data t ! k, tex_data t ! (k + 1), tex_data t ! (k + 2), tex_data t ! (k + 3)))"

record ComputeUniforms =
  u_resolution :: vec2
  u_dA :: real
  u_dB :: real
  u_feed :: real
  u_kill :: real
  u_feedDiff :: real
  u_feedVariation :: real

definition glsl_clamp :: "real \<Rightarrow> real \<Rightarrow> real \<Rightarrow> real" where
  "glsl_clamp x lo hi = min (max x lo) hi"

definition shader_weight :: "int \<Rightarrow> int \<Rightarrow> real" where
  "shader_weight x y =
     (let w = 0.05;
          w = (if x = 0 \<or> y = 0 then 0.2 else w);
          w = (if x = 0 \<and> y = 0 then - 1.0 else w)
      in w)"

definition shader_laplace_acc ::
  "Texture \<Rightarrow> vec2 \<Rightarrow> vec2 \<Rightarrow> int \<Rightarrow> int \<Rightarrow> real \<times> real \<Rightarrow> real \<times> real" where
  "shader_laplace_acc t uv texelSize y x acc =
     (let offset = (of_int x * fst texelSize, of_int y * snd texelSize);
          neighbor = texture t (fst uv + fst offset, snd uv + snd offset);
          w = shader_weight x y
      in (fst acc + fst neighbor * w, snd acc + fst (snd neighbor) * w))"

definition shader_laplace :: "Texture \<Rightarrow> vec2 \<Rightarrow> vec2 \<Rightarrow> real \<times> real" where
  "shader_laplace t uv texelSize =
     fold (\<lambda>y. fold (\<lambda>x. shader_laplace_acc t uv texelSize y x) [- 1, 0, 1])
       [- 1, 0, 1] (0, 0)"

definition computeShader :: "ComputeUniforms \<Rightarrow> Texture \<Rightarrow> vec2 \<Rightarrow> vec4" where
  "computeShader u t gl_FragCoord =
     (let texelSize = (1 / fst (u_resolution u), 1 / snd (u_resolution u));
          uv = (fst gl_FragCoord / fst (u_resolution u),
                snd gl_FragCoord / snd (u_resolution u));
          cell = texture t uv;
          A = fst cell;
          B = fst (snd cell);
          feedRate = u_feed u + ((u_feedVariation u - 50) * u_feedDiff u) / 100;
          killRate = u_kill u;
          (laplaceA, laplaceB) = shader_laplace t uv texelSize;
          nextA = A + (u_dA u * laplaceA - A * B * B + feedRate * (1 - A));
          nextB = B + (u_dB u * laplaceB + A * B * B - (feedRate + killRate) * B);
          nextA = glsl_clamp nextA 0 1;
          nextB = glsl_clamp nextB 0 1
      in (nextA, nextB, 0, 1))"

text \<open>
  \<open>drawArrays\<close> with the two triangles that cover the viewport runs the fragment shader
  once per pixel \<open>(x, y)\<close> of the render target, at the pixel centre
  \<open>(x + 0.5, y + 0.5)\<close>, and stores the result in the texture attached to the bound
  framebuffer.
\<close>

definition vec4_list :: "vec4 \<Rightarrow> real list" where
  "vec4_list v = [fst v, fst (snd v), fst (snd (snd v)), snd (snd (snd v))]"

definition frag_coord :: "nat \<Rightarrow> nat \<Rightarrow> vec2" where
  "frag_coord width k = (real (k mod width) + 0.5, real (k div width) + 0.5)"

definition draw_compute :: "ComputeUniforms \<Rightarrow> Texture \<Rightarrow> Texture \<Rightarrow> Texture" where
  "draw_compute u src dst =
     dst\<lparr> tex_data :=
       concat (map (\<lambda>k. vec4_list (computeShader u src (frag_coord (tex_width dst) k)))
                 [0..<tex_width dst * tex_height dst]) \<rparr>"

record Gl =
  glRef :: "(nat \<times> nat) option"
  texturesRef :: "Texture list"
  computeProgramRef :: bool
  renderProgramRef :: bool

definition compute_uniforms :: "Params \<Rightarrow> nat \<Rightarrow> nat \<Rightarrow> ComputeUniforms" where
  "compute_uniforms p width height =
     \<lparr> u_resolution = (real width, real height), u_dA = dA p, u_dB = dB p,
       u_feed = feed p, u_kill = killMin p, u_feedDiff = feedDiff p,
       u_feedVariation = feedVariation p \<rparr>"

definition ping_pong :: "ComputeUniforms \<Rightarrow> nat \<Rightarrow> Texture list \<Rightarrow> Texture list" where
  "ping_pong u i ts =
     (let readIdx = i mod 2;
          writeIdx = (i + 1) mod 2
      in ts[writeIdx := draw_compute u (ts ! readIdx) (ts ! writeIdx)])"

definition gl_computeStep :: "Params \<Rightarrow> Gl \<Rightarrow> Gl" where
  "gl_computeStep p g =
     (case glRef g of
        None \<Rightarrow> g
      | Some (width, height) \<Rightarrow>
          if \<not> computeProgramRef g then g
          else g\<lparr> texturesRef :=
                 fold (ping_pong (compute_uniforms p width height)) [0..<iterations p]
                   (texturesRef g) \<rparr>)"

text \<open>The texture that \<open>render\<close> binds before drawing to the canvas.\<close>

definition gl_render_texture :: "Params \<Rightarrow> Gl \<Rightarrow> Texture" where
  "gl_render_texture p g = texturesRef g ! ((iterations p + 1) mod 2)"

subsection \<open>Initialisation (initializeTexture, initWebGL)\<close>

definition fill_A4 :: "Float32Array \<Rightarrow> Float32Array" where
  "fill_A4 g =
     fold (\<lambda>j g. g[4 * j := 1, 4 * j + 1 := 0, 4 * j + 2 := 0, 4 * j + 3 := 1])
       [0..<(length g + 3) div 4] g"

definition spot_texel ::
  "nat \<Rightarrow> nat \<Rightarrow> int \<Rightarrow> int \<Rightarrow> int \<Rightarrow> int \<Rightarrow> Float32Array \<Rightarrow> Float32Array" where
  "spot_texel width height x y dy dx g =
     (let radius = 3
      in if dx * dx + dy * dy \<le> radius * radius then
           (let px = js_rem (x + dx + int width) (int width);
                py = js_rem (y + dy + int height) (int height);
                idx = (py * int width + px) * 4
            in f32_set (f32_set g idx 0) (idx + 1) 1)
         else g)"

definition add_spot4 :: "nat \<Rightarrow> nat \<Rightarrow> int \<Rightarrow> int \<Rightarrow> Float32Array \<Rightarrow> Float32Array" where
  "add_spot4 width height x y g =
     fold (\<lambda>dy. fold (\<lambda>dx. spot_texel width height x y dy dx) [- 3..3]) [- 3..3] g"

definition initializeTexture :: "(nat \<Rightarrow> real) \<Rightarrow> nat \<Rightarrow> nat \<Rightarrow> Texture \<Rightarrow> Texture" where
  "initializeTexture random width height t =
     (let initialState = fill_A4 (new_Float32Array (width * height * 4));
          initialState = fold (\<lambda>i. add_spot4 width height (seed_x random width i)
                                      (seed_y random height i)) [0..<20] initialState
      in \<lparr> tex_width = width, tex_height = height, tex_data = initialState \<rparr>)"

definition empty_texture :: "nat \<Rightarrow> nat \<Rightarrow> Texture" where
  "empty_texture width height =
     \<lparr> tex_width = width, tex_height = height,
       tex_data = new_Float32Array (width * height * 4) \<rparr>"

definition initWebGL :: "(nat \<Rightarrow> real) \<Rightarrow> nat \<Rightarrow> nat \<Rightarrow> Gl" where
  "initWebGL random width height =
     (let ts = [empty_texture width height, empty_texture width height];
          ts = ts[0 := initializeTexture random width height (ts ! 0)]
      in \<lparr> glRef = Some (width, height), texturesRef = ts,
           computeProgramRef = True, renderProgramRef = True \<rparr>)"

definition gl_resetSimulation :: "(nat \<Rightarrow> real) \<Rightarrow> Gl \<Rightarrow> Gl" where
  "gl_resetSimulation random g =
     (case glRef g of
        None \<Rightarrow> g
      | Some (width, height) \<Rightarrow>
          if length (texturesRef g) = 0 then g
          else (let ts = texturesRef g;
                    ts = ts[0 := initializeTexture random width height (ts ! 0)];
                    ts = ts[1 := empty_texture width height]
                in g\<lparr> texturesRef := ts \<rparr>))"

section \<open>Auxiliary definitions for the proofs\<close>

text \<open>The value the kernel leaves in the cell \<open>(x, y)\<close> of the next grid.\<close>

definition cell_out :: "Params \<Rightarrow> nat \<Rightarrow> nat \<Rightarrow> Float32Array \<Rightarrow> nat \<Rightarrow> nat \<Rightarrow> real \<times> real" where
  "cell_out p width height cur y x =
     (let i = (y * width + x) * 2;
          a = cur ! i;
          b = cur ! (i + 1);
          la = fst (laplace width height cur x y);
          lb = snd (laplace width height cur x y)
      in (max 0 (min 1 (a + (la * dA p - a * b * b + feedRate p * (1 - a)))),
          max 0 (min 1 (b + (lb * dB p + a * b * b - (feedRate p + killRate p width x) * b)))))"

text \<open>The content of the next grid at the flat index \<open>k\<close> after a whole pass.\<close>

definition grid_val :: "Params \<Rightarrow> nat \<Rightarrow> nat \<Rightarrow> Float32Array \<Rightarrow> nat \<Rightarrow> real" where
  "grid_val p width height cur k =
     (if even k then fst (cell_out p width height cur (k div 2 div width) (k div 2 mod width))
      else snd (cell_out p width height cur (k div 2 div width) (k div 2 mod width)))"

text \<open>
  For the initialisation: \<open>paint\<close> is the pair of stores that sets one cell to
  \<open>(0, 1)\<close>, \<open>js_cell\<close> the cell index that the loop body computes for an offset,
  \<open>spot_set\<close> the set of cells that one spot reaches, and \<open>cells k n S g\<close> says that the
  array \<open>g\<close>, with \<open>k\<close> entries per cell, holds \<open>(0, 1)\<close> in the cells of \<open>S\<close> and \<open>(1, 0)\<close>
  in the others.
\<close>

definition paint :: "nat \<Rightarrow> Float32Array \<Rightarrow> int \<Rightarrow> Float32Array" where
  "paint k g cj = f32_set (f32_set g (cj * int k) 0) (cj * int k + 1) 1"

definition cells :: "nat \<Rightarrow> nat \<Rightarrow> nat set \<Rightarrow> Float32Array \<Rightarrow> bool" where
  "cells k n S g =
     (length g = n * k \<and>
      (\<forall>c < n. g ! (c * k) = (if c \<in> S then 0 else 1) \<and>
               g ! (c * k + 1) = (if c \<in> S then 1 else 0)))"

definition hit :: "nat \<Rightarrow> int \<Rightarrow> nat set" where
  "hit n cj = (if 0 \<le> cj \<and> cj < int n then {nat cj} else {})"

definition js_cell :: "nat \<Rightarrow> nat \<Rightarrow> int \<Rightarrow> int \<Rightarrow> int \<Rightarrow> int \<Rightarrow> int" where
  "js_cell width height x y dy dx =
     js_rem (y + dy + int height) (int height) * int width
       + js_rem (x + dx + int width) (int width)"

definition spot_hits :: "nat \<Rightarrow> nat \<Rightarrow> int \<Rightarrow> int \<Rightarrow> int \<Rightarrow> int \<Rightarrow> nat set" where
  "spot_hits width height x y dy dx =
     (if dx * dx + dy * dy \<le> 9 then hit (width * height) (js_cell width height x y dy dx)
      else {})"

definition spot_set :: "nat \<Rightarrow> nat \<Rightarrow> int \<Rightarrow> int \<Rightarrow> nat set" where
  "spot_set width height x y =
     (\<Union>dy \<in> {- 3..3}. \<Union>dx \<in> {- 3..3}. spot_hits width height x y dy dx)"

text \<open>
  The claim's own wording of where a seed spot lies: the cell \<open>(cx, cy)\<close> is a seed centre
  plus an offset \<open>(dx, dy)\<close> with \<open>dx\<^sup>2 + dy\<^sup>2 \<le> 9\<close>, taken modulo the grid size.
\<close>

definition in_some_spot :: "(nat \<Rightarrow> real) \<Rightarrow> nat \<Rightarrow> nat \<Rightarrow> nat \<Rightarrow> nat \<Rightarrow> bool" where
  "in_some_spot random width height cx cy =
     (\<exists>i < 20. \<exists>dx dy. dx * dx + dy * dy \<le> 9 \<and>
        int cx = (seed_x random width i + dx) mod int width \<and>
        int cy = (seed_y random height i + dy) mod int height)"

text \<open>
  For comparing the two variants: \<open>same_cells\<close> relates a grid and a texture that hold
  the same concentrations, \<open>patch\<close> says that a cell and its eight neighbours all hold
  \<open>(a, b)\<close>, and \<open>init_grid_data\<close> is the array that \<open>initGrid\<close> builds.
\<close>

definition same_cells :: "nat \<Rightarrow> nat \<Rightarrow> Float32Array \<Rightarrow> Texture \<Rightarrow> bool" where
  "same_cells width height g t =
     (tex_width t = width \<and> tex_height t = height \<and>
      (\<forall>c < width * height.
         tex_data t ! (4 * c) = g ! (2 * c) \<and> tex_data t ! (4 * c + 1) = g ! (2 * c + 1)))"

definition patch :: "nat \<Rightarrow> nat \<Rightarrow> Float32Array \<Rightarrow> nat \<Rightarrow> nat \<Rightarrow> real \<Rightarrow> real \<Rightarrow> bool" where
  "patch width height g x y a b =
     (\<forall>dx dy. - 1 \<le> dx \<and> dx \<le> 1 \<and> - 1 \<le> dy \<and> dy \<le> 1 \<longrightarrow>
        f32_get g (nb_idx width height x y dx dy) = a \<and>
        f32_get g (nb_idx width height x y dx dy + 1) = b)"

definition init_grid_data :: "(nat \<Rightarrow> real) \<Rightarrow> nat \<Rightarrow> nat \<Rightarrow> Float32Array" where
  "init_grid_data random width height =
     fold (\<lambda>i. add_spot width height (seed_x random width i) (seed_y random height i))
       [0..<20] (fill_A (new_Float32Array (width * height * 2)))"

text \<open>
  A concrete start: the application's canvas of 400 by 400 before initialisation, and a
  random source that returns 0.5 at every call, which puts all twenty spots at the
  centre \<open>(200, 200)\<close>.
\<close>

definition canvas0 :: Sim where
  "canvas0 = \<lparr> canvasRef = Some (400, 400), currentGridRef = None, nextGridRef = None \<rparr>"

definition centre_random :: "nat \<Rightarrow> real" where
  "centre_random k = 1 / 2"







definition lo :: "real \<Rightarrow> jsnum \<Rightarrow> bool" where
  "lo c v = (\<exists>r. v = Num r \<and> c \<le> r)"
















section \<open>Properties of the sequential kernel\<close>

lemma js_rem_nonneg: "0 \<le> a \<Longrightarrow> 0 < b \<Longrightarrow> js_rem a b = a mod b"
  by (cases "a = 0") (simp_all add: js_rem_def)

lemma step_cell_length: "length (step_cell p w h cur y x nxt) = length nxt"
  by (simp add: step_cell_def Let_def split: prod.splits)

lemma list_update_twice_pair:
  assumes "i \<noteq> j"
  shows "xs[i := u, j := v, i := u', j := v'] = xs[i := u', j := v']"
proof -
  have "xs[i := u, j := v, i := u'] = xs[i := u, i := u', j := v]"
    using assms by (simp add: list_update_swap [of j i])
  then show ?thesis by simp
qed

lemma step_cell_eq:
  assumes "(y * w + x) * 2 + 1 < length nxt"
  shows "step_cell p w h cur y x nxt =
    nxt[(y * w + x) * 2 := fst (cell_out p w h cur y x),
        (y * w + x) * 2 + 1 := snd (cell_out p w h cur y x)]"
proof -
  let ?i = "(y * w + x) * 2"
  have i: "?i < length nxt" and i1: "?i + 1 < length nxt"
    using assms by simp_all
  obtain la lb where l: "laplace w h cur x y = (la, lb)"
    by (cases "laplace w h cur x y")
  show ?thesis
    using i i1
    by (simp add: step_cell_def cell_out_def l Let_def list_update_twice_pair)
qed

lemma grid_val_even:
  "x < w \<Longrightarrow> grid_val p w h cur ((y * w + x) * 2) = fst (cell_out p w h cur y x)"
  by (simp add: grid_val_def)

lemma grid_val_odd:
  "x < w \<Longrightarrow> grid_val p w h cur ((y * w + x) * 2 + 1) = snd (cell_out p w h cur y x)"
  by (simp add: grid_val_def)

lemma fold_row:
  assumes "n \<le> w" and "(y * w + n) * 2 \<le> length nxt"
  shows "length (fold (\<lambda>x. step_cell p w h cur y x) [0..<n] nxt) = length nxt \<and>
    (\<forall>k < length nxt. fold (\<lambda>x. step_cell p w h cur y x) [0..<n] nxt ! k =
       (if y * w * 2 \<le> k \<and> k < (y * w + n) * 2 then grid_val p w h cur k else nxt ! k))"
  using assms
proof (induction n)
  case 0
  then show ?case by simp
next
  case (Suc n)
  let ?R = "fold (\<lambda>x. step_cell p w h cur y x) [0..<n] nxt"
  let ?i = "(y * w + n) * 2"
  have n: "n < w" and bound: "?i + 1 < length nxt"
    using Suc.prems by simp_all
  have IH: "length ?R = length nxt"
    "\<And>k. k < length nxt \<Longrightarrow>
       ?R ! k = (if y * w * 2 \<le> k \<and> k < ?i then grid_val p w h cur k else nxt ! k)"
    using Suc.IH n bound by simp_all
  have step: "fold (\<lambda>x. step_cell p w h cur y x) [0..<Suc n] nxt =
      ?R[?i := fst (cell_out p w h cur y n), ?i + 1 := snd (cell_out p w h cur y n)]"
    using bound IH(1) by (simp add: step_cell_eq)
  have ge: "grid_val p w h cur ?i = fst (cell_out p w h cur y n)"
    using n by (rule grid_val_even)
  have go: "grid_val p w h cur (?i + 1) = snd (cell_out p w h cur y n)"
    using n by (rule grid_val_odd)
  show ?case
  proof (intro conjI allI impI)
    show "length (fold (\<lambda>x. step_cell p w h cur y x) [0..<Suc n] nxt) = length nxt"
      by (simp only: step length_list_update IH(1))
  next
    fix k assume k: "k < length nxt"
    consider "k = ?i" | "k = ?i + 1" | "k < ?i" | "?i + 1 < k" by linarith
    then show "fold (\<lambda>x. step_cell p w h cur y x) [0..<Suc n] nxt ! k =
       (if y * w * 2 \<le> k \<and> k < (y * w + Suc n) * 2 then grid_val p w h cur k else nxt ! k)"
    proof cases
      case 1
      then show ?thesis using bound IH(1) ge unfolding step by simp
    next
      case 2
      then show ?thesis using bound IH(1) go unfolding step by simp
    next
      case 3
      then show ?thesis using k IH(2) [OF k] unfolding step by simp
    next
      case 4
      then show ?thesis using k IH(2) [OF k] unfolding step by simp
    qed
  qed
qed

lemma fold_grid:
  assumes "m \<le> h" and "length nxt = w * h * 2"
  shows "length (fold (\<lambda>y. fold (\<lambda>x. step_cell p w h cur y x) [0..<w]) [0..<m] nxt)
      = length nxt \<and>
    (\<forall>k < length nxt.
       fold (\<lambda>y. fold (\<lambda>x. step_cell p w h cur y x) [0..<w]) [0..<m] nxt ! k =
       (if k < m * w * 2 then grid_val p w h cur k else nxt ! k))"
  using assms
proof (induction m)
  case 0
  then show ?case by simp
next
  case (Suc m)
  let ?R = "fold (\<lambda>y. fold (\<lambda>x. step_cell p w h cur y x) [0..<w]) [0..<m] nxt"
  let ?S = "fold (\<lambda>x. step_cell p w h cur m x) [0..<w] ?R"
  have IH: "length ?R = length nxt"
    "\<And>k. k < length nxt \<Longrightarrow>
       ?R ! k = (if k < m * w * 2 then grid_val p w h cur k else nxt ! k)"
    using Suc by simp_all
  have "Suc m * w \<le> h * w"
    using Suc.prems(1) by (rule mult_le_mono1)
  then have room: "(m * w + w) * 2 \<le> length ?R"
    using IH(1) Suc.prems(2) by (simp add: mult.commute)
  have row: "length ?S = length ?R"
    "\<And>k. k < length ?R \<Longrightarrow>
       ?S ! k = (if m * w * 2 \<le> k \<and> k < (m * w + w) * 2 then grid_val p w h cur k
                 else ?R ! k)"
    using fold_row [of w w m ?R p h cur] room by simp_all
  have unfold: "fold (\<lambda>y. fold (\<lambda>x. step_cell p w h cur y x) [0..<w]) [0..<Suc m] nxt = ?S"
    by simp
  show ?case
  proof (intro conjI allI impI)
    show "length (fold (\<lambda>y. fold (\<lambda>x. step_cell p w h cur y x) [0..<w]) [0..<Suc m] nxt)
        = length nxt"
      unfolding unfold using row(1) IH(1) by simp
  next
    fix k assume k: "k < length nxt"
    then have k': "k < length ?R" using IH(1) by simp
    show "fold (\<lambda>y. fold (\<lambda>x. step_cell p w h cur y x) [0..<w]) [0..<Suc m] nxt ! k =
       (if k < Suc m * w * 2 then grid_val p w h cur k else nxt ! k)"
      unfolding unfold using row(2) [OF k'] IH(2) [OF k] by (simp add: algebra_simps)
  qed
qed

lemma step_grid_length:
  "length nxt = w * h * 2 \<Longrightarrow> length (step_grid p w h cur nxt) = w * h * 2"
  using fold_grid [of h h nxt w p cur] by (simp add: step_grid_def)

lemma step_grid_nth:
  assumes "length nxt = w * h * 2" and "k < w * h * 2"
  shows "step_grid p w h cur nxt ! k = grid_val p w h cur k"
proof -
  have "k < h * w * 2" using assms(2) by (simp add: mult.commute)
  then show ?thesis
    using fold_grid [of h h nxt w p cur] assms by (simp add: step_grid_def)
qed



subsection \<open>Neighbour indices\<close>

lemma cell_index_less:
  fixes px py :: nat
  assumes "px < w" and "py < h"
  shows "py * w + px < w * h"
proof -
  have "py * w + px < py * w + w" using assms(1) by simp
  also have "\<dots> = Suc py * w" by simp
  also have "\<dots> \<le> h * w" using assms(2) by (intro mult_le_mono1) simp
  finally show ?thesis by (simp add: mult.commute)
qed


section \<open>Properties of the fragment-shader kernel\<close>

subsection \<open>Texel coordinates and draw passes\<close>

lemma texel_coord_less: "0 < n \<Longrightarrow> nat \<lfloor>frac u * real n\<rfloor> < n"
proof -
  assume n: "0 < n"
  have "frac u * real n < 1 * real n"
    using n by (intro mult_strict_right_mono frac_lt_1) simp
  then have "\<lfloor>frac u * real n\<rfloor> < int n"
    by (simp add: floor_less_iff)
  moreover have "0 \<le> frac u * real n"
    by (intro mult_nonneg_nonneg frac_ge_0) simp
  then have "0 \<le> \<lfloor>frac u * real n\<rfloor>"
    by simp
  ultimately show ?thesis by linarith
qed

lemma nth_concat_map_fixed:
  assumes "\<And>x. length (f x) = m" and "k < length xs" and "c < m"
  shows "concat (map f xs) ! (k * m + c) = f (xs ! k) ! c"
  using assms(2)
proof (induction xs arbitrary: k)
  case Nil
  then show ?case by simp
next
  case (Cons x xs)
  show ?case
  proof (cases k)
    case 0
    then show ?thesis using assms(1,3) by (simp add: nth_append)
  next
    case (Suc j)
    then have "j < length xs" using Cons.prems by simp
    then have "concat (map f xs) ! (j * m + c) = f (xs ! j) ! c" by (rule Cons.IH)
    then show ?thesis using Suc assms(1) by (simp add: nth_append)
  qed
qed

lemma length_concat_map_fixed:
  assumes "\<And>x. length (f x) = m"
  shows "length (concat (map f xs)) = length xs * m"
  by (induction xs) (simp_all add: assms)

lemma draw_compute_dims [simp]:
  "tex_width (draw_compute u src dst) = tex_width dst"
  "tex_height (draw_compute u src dst) = tex_height dst"
  by (simp_all add: draw_compute_def)

lemma draw_compute_nth:
  assumes "k < tex_width dst * tex_height dst" and "c < 4"
  shows "tex_data (draw_compute u src dst) ! (k * 4 + c) =
    vec4_list (computeShader u src (frag_coord (tex_width dst) k)) ! c"
proof -
  let ?f = "\<lambda>k. vec4_list (computeShader u src (frag_coord (tex_width dst) k))"
  have len: "\<And>x. length (?f x) = 4" by (simp add: vec4_list_def)
  have k: "k < length [0..<tex_width dst * tex_height dst]" using assms(1) by simp
  have "concat (map ?f [0..<tex_width dst * tex_height dst]) ! (k * 4 + c) =
      ?f ([0..<tex_width dst * tex_height dst] ! k) ! c"
    using len k assms(2) by (rule nth_concat_map_fixed)
  then show ?thesis
    using assms(1) by (simp add: draw_compute_def)
qed

lemma draw_compute_same_dims:
  assumes "tex_width dst = tex_width dst'" and "tex_height dst = tex_height dst'"
  shows "draw_compute u src dst = draw_compute u src dst'"
  using assms by (simp add: draw_compute_def)

subsection \<open>The ping-pong loop\<close>

lemma ping_pong_fold:
  assumes "tex_width t1 = tex_width t0" and "tex_height t1 = tex_height t0"
  shows "length (fold (ping_pong u) [0..<Suc n] [t0, t1]) = 2 \<and>
    fold (ping_pong u) [0..<Suc n] [t0, t1] ! (Suc n mod 2)
      = ((\<lambda>t. draw_compute u t t0) ^^ Suc n) t0 \<and>
    fold (ping_pong u) [0..<Suc n] [t0, t1] ! (n mod 2)
      = ((\<lambda>t. draw_compute u t t0) ^^ n) t0"
proof (induction n)
  case 0
  have "draw_compute u t0 t1 = draw_compute u t0 t0"
    using assms by (rule draw_compute_same_dims)
  then show ?case by (simp add: ping_pong_def)
next
  case (Suc n)
  let ?P = "\<lambda>t. draw_compute u t t0"
  define ts where "ts = fold (ping_pong u) [0..<Suc n] [t0, t1]"
  have len: "length ts = 2"
    and cur: "ts ! (Suc n mod 2) = (?P ^^ Suc n) t0"
    and old: "ts ! (n mod 2) = (?P ^^ n) t0"
    using Suc.IH by (simp_all add: ts_def)
  have sw: "(Suc n + 1) mod 2 = n mod 2" by simp
  have sw': "Suc (Suc n) mod 2 = n mod 2" by simp
  have ne: "Suc n mod 2 \<noteq> n mod 2" by presburger
  have lt: "n mod 2 < 2" by simp
  have dims: "tex_width ((?P ^^ n) t0) = tex_width t0" "tex_height ((?P ^^ n) t0) = tex_height t0"
    by (cases n; simp)+
  have same: "draw_compute u ((?P ^^ Suc n) t0) ((?P ^^ n) t0) = ?P ((?P ^^ Suc n) t0)"
    using dims by (rule draw_compute_same_dims)
  have unfold: "fold (ping_pong u) [0..<Suc (Suc n)] [t0, t1] = ping_pong u (Suc n) ts"
    by (simp add: ts_def)
  have step: "ping_pong u (Suc n) ts = ts[n mod 2 := ?P ((?P ^^ Suc n) t0)]"
    unfolding ping_pong_def Let_def sw cur old same ..
  have r1: "length (ts[n mod 2 := ?P ((?P ^^ Suc n) t0)]) = 2"
    using len by simp
  have r2: "ts[n mod 2 := ?P ((?P ^^ Suc n) t0)] ! (Suc (Suc n) mod 2)
      = (?P ^^ Suc (Suc n)) t0"
    unfolding sw' using len lt by simp
  have r3: "ts[n mod 2 := ?P ((?P ^^ Suc n) t0)] ! (Suc n mod 2) = (?P ^^ Suc n) t0"
    using ne cur by simp
  show ?case
    unfolding unfold step using r1 r2 r3 by blast
qed

lemma gl_render_texture_lags:
  assumes "glRef g = Some (w, h)" and "computeProgramRef g" and "texturesRef g = [t0, t1]"
    and "tex_width t1 = tex_width t0" and "tex_height t1 = tex_height t0"
    and "iterations p = Suc n"
  shows "gl_render_texture p (gl_computeStep p g)
      = ((\<lambda>t. draw_compute (compute_uniforms p w h) t t0) ^^ n) t0"
    and "texturesRef (gl_computeStep p g) ! (Suc n mod 2)
      = ((\<lambda>t. draw_compute (compute_uniforms p w h) t t0) ^^ Suc n) t0"
proof -
  have ts: "texturesRef (gl_computeStep p g) =
      fold (ping_pong (compute_uniforms p w h)) [0..<Suc n] [t0, t1]"
    using assms(1,2,3,6) by (simp add: gl_computeStep_def)
  have sw: "(Suc n + 1) mod 2 = n mod 2" by simp
  show "gl_render_texture p (gl_computeStep p g)
      = ((\<lambda>t. draw_compute (compute_uniforms p w h) t t0) ^^ n) t0"
    unfolding gl_render_texture_def ts assms(6) sw
    using ping_pong_fold [OF assms(4,5), of "compute_uniforms p w h" n] by blast
  show "texturesRef (gl_computeStep p g) ! (Suc n mod 2)
      = ((\<lambda>t. draw_compute (compute_uniforms p w h) t t0) ^^ Suc n) t0"
    unfolding ts
    using ping_pong_fold [OF assms(4,5), of "compute_uniforms p w h" n] by blast
qed

lemma killRate_formula:
  "killRate p w x = killMin p + (real x / real w) * (killMax p - killMin p)"
  "killRate p w 0 = killMin p"
  "0 < w \<Longrightarrow> killRate p w (w - 1) = killMin p + (real (w - 1) / real w) * (killMax p - killMin p)"
  by (simp_all add: killRate_def)

lemma shader_ignores_killMax:
  "compute_uniforms (p\<lparr> killMax := k \<rparr>) w h = compute_uniforms p w h"
  by (simp add: compute_uniforms_def)

lemma empty_texture_dims [simp]:
  "tex_width (empty_texture w h) = w" "tex_height (empty_texture w h) = h"
  by (simp_all add: empty_texture_def)

lemma new_Float32Array_length [simp]: "length (new_Float32Array n) = n"
  by (simp add: new_Float32Array_def)

section \<open>Initialisation: the seed spots\<close>

lemma js_rem_wrap:
  assumes "0 < n" and "0 \<le> x" and "x < n" and "- 3 \<le> d"
  shows "js_rem (x + d + n) n = (x + d) mod n \<or>
         (n = 2 \<and> x = 0 \<and> d = - 3 \<and> js_rem (x + d + n) n = - 1)"
proof (cases "0 \<le> x + d + n")
  case True
  then show ?thesis using assms(1) by (simp add: js_rem_nonneg)
next
  case False
  then have "n = 1 \<or> n = 2" using assms by linarith
  then show ?thesis
  proof
    assume "n = 1"
    then show ?thesis by (simp add: js_rem_def)
  next
    assume n: "n = 2"
    then have "x = 0" "d = - 3" using False assms by linarith+
    then show ?thesis using n by (simp add: js_rem_def)
  qed
qed

lemma paint_outside:
  assumes "length g = n * k" and "2 \<le> k" and "\<not> (0 \<le> cj \<and> cj < int n)"
  shows "paint k g cj = g"
proof (cases "cj < 0")
  case True
  then have "cj \<le> - 1" by simp
  then have "cj * int k \<le> - 1 * int k" by (intro mult_right_mono) simp_all
  then have "cj * int k + 1 < 0" using assms(2) by linarith
  then show ?thesis by (simp add: paint_def f32_set_def)
next
  case False
  with assms(3) have ge: "int n \<le> cj" by simp
  then have "int n * int k \<le> cj * int k" by (intro mult_right_mono) simp_all
  then have "int (length g) \<le> cj * int k" using assms(1) by simp
  then have "\<not> nat (cj * int k) < length g" "\<not> nat (cj * int k + 1) < length g"
    by linarith+
  then show ?thesis by (simp add: paint_def f32_set_def)
qed

lemma paint_inside:
  assumes "length g = n * k" and "2 \<le> k" and "c < n"
  shows "paint k g (int c) = g[c * k := 0, c * k + 1 := 1]"
proof -
  have "Suc c * k \<le> n * k" using assms(3) by (intro mult_le_mono1) simp
  then have i1: "c * k + 1 < length g" using assms(1,2) by simp
  have idx: "paint k g (int c) = f32_set (f32_set g (int (c * k)) 0) (int (c * k + 1)) 1"
    by (simp add: paint_def add.commute)
  have s1: "f32_set g (int (c * k)) 0 = g[c * k := 0]"
    unfolding f32_set_def nat_int using i1 by simp
  have s2: "f32_set (g[c * k := 0]) (int (c * k + 1)) 1 = g[c * k := 0, c * k + 1 := 1]"
    unfolding f32_set_def nat_int using i1 by simp
  show ?thesis
    unfolding idx s1 s2 ..
qed

lemma paint_cells:
  assumes "cells k n S g" and "2 \<le> k"
  shows "cells k n (S \<union> hit n cj) (paint k g cj)"
proof (cases "0 \<le> cj \<and> cj < int n")
  case False
  have len: "length g = n * k" using assms(1) by (simp add: cells_def)
  have "paint k g cj = g" using len assms(2) False by (rule paint_outside)
  moreover have "hit n cj = {}" using False by (simp add: hit_def)
  ultimately show ?thesis using assms(1) by simp
next
  case True
  define c where "c = nat cj"
  have cj: "cj = int c" using True by (simp add: c_def)
  have c: "c < n" using True unfolding c_def by linarith
  have len: "length g = n * k" using assms(1) by (simp add: cells_def)
  have "Suc c * k \<le> n * k" using c by (intro mult_le_mono1) simp
  then have i1: "c * k + 1 < length g" using assms(2) len by simp
  have p: "paint k g cj = g[c * k := 0, c * k + 1 := 1]"
    unfolding cj using len assms(2) c by (rule paint_inside)
  have h: "hit n cj = {c}" using True by (simp add: hit_def c_def)
  show ?thesis
    unfolding cells_def p h
  proof (intro conjI allI impI)
    show "length (g[c * k := 0, c * k + 1 := 1]) = n * k" using len by simp
  next
    fix c' assume c': "c' < n"
    have old: "g ! (c' * k) = (if c' \<in> S then 0 else 1)"
      "g ! (c' * k + 1) = (if c' \<in> S then 1 else 0)"
      using assms(1) c' by (simp_all add: cells_def)
    have "Suc c' * k \<le> n * k" using c' by (intro mult_le_mono1) simp
    then have b: "c' * k + 1 < length g" using assms(2) len by simp
    have sep: "c' * k \<noteq> c * k \<and> c' * k \<noteq> c * k + 1 \<and>
        c' * k + 1 \<noteq> c * k \<and> c' * k + 1 \<noteq> c * k + 1" if ne: "c' \<noteq> c"
    proof (cases "c' < c")
      case True
      then have "Suc c' * k \<le> c * k" by (intro mult_le_mono1) simp
      then have "c' * k + k \<le> c * k" by simp
      then show ?thesis using assms(2) by linarith
    next
      case False
      then have "Suc c * k \<le> c' * k" using ne by (intro mult_le_mono1) simp
      then have "c * k + k \<le> c' * k" by simp
      then show ?thesis using assms(2) by linarith
    qed
    show "g[c * k := 0, c * k + 1 := 1] ! (c' * k) = (if c' \<in> S \<union> {c} then 0 else 1)"
    proof (cases "c' = c")
      case True
      then show ?thesis using i1 by simp
    next
      case False
      then show ?thesis using sep [OF False] old(1) by simp
    qed
    show "g[c * k := 0, c * k + 1 := 1] ! (c' * k + 1) = (if c' \<in> S \<union> {c} then 1 else 0)"
    proof (cases "c' = c")
      case True
      then show ?thesis using i1 by simp
    next
      case False
      then show ?thesis using sep [OF False] old(2) by simp
    qed
  qed
qed

lemma spot_cell_paint:
  "spot_cell w h x y dy dx g =
     (if dx * dx + dy * dy \<le> 9 then paint 2 g (js_cell w h x y dy dx) else g)"
  by (simp add: spot_cell_def paint_def js_cell_def Let_def)

lemma spot_texel_paint:
  "spot_texel w h x y dy dx g =
     (if dx * dx + dy * dy \<le> 9 then paint 4 g (js_cell w h x y dy dx) else g)"
  by (simp add: spot_texel_def paint_def js_cell_def Let_def)

lemma spot_cell_cells:
  assumes "cells 2 (w * h) S g"
  shows "cells 2 (w * h) (S \<union> spot_hits w h x y dy dx) (spot_cell w h x y dy dx g)"
  using assms paint_cells [OF assms, of "js_cell w h x y dy dx"]
  by (simp add: spot_cell_paint spot_hits_def)

lemma spot_texel_cells:
  assumes "cells 4 (w * h) S g"
  shows "cells 4 (w * h) (S \<union> spot_hits w h x y dy dx) (spot_texel w h x y dy dx g)"
  using assms paint_cells [OF assms, of "js_cell w h x y dy dx"]
  by (simp add: spot_texel_paint spot_hits_def)

lemma fold_cells:
  assumes "\<And>x S g. cells k n S g \<Longrightarrow> cells k n (S \<union> T x) (f x g)"
    and "cells k n S g"
  shows "cells k n (S \<union> (\<Union>x \<in> set xs. T x)) (fold f xs g)"
  using assms(2)
proof (induction xs arbitrary: S g)
  case Nil
  then show ?case by simp
next
  case (Cons x xs)
  have "cells k n (S \<union> T x) (f x g)" using Cons.prems by (rule assms(1))
  then have "cells k n ((S \<union> T x) \<union> (\<Union>x \<in> set xs. T x)) (fold f xs (f x g))"
    by (rule Cons.IH)
  moreover have "(S \<union> T x) \<union> (\<Union>x \<in> set xs. T x) = S \<union> (\<Union>x \<in> set (x # xs). T x)"
    by auto
  ultimately show ?case by simp
qed

lemma add_spot_cells:
  assumes "cells 2 (w * h) S g"
  shows "cells 2 (w * h) (S \<union> spot_set w h x y) (add_spot w h x y g)"
proof -
  have row: "cells 2 (w * h) (S' \<union> (\<Union>dx \<in> set [- 3..3]. spot_hits w h x y dy dx))
      (fold (\<lambda>dx. spot_cell w h x y dy dx) [- 3..3] g')"
    if "cells 2 (w * h) S' g'" for S' g' dy
    using that by (intro fold_cells spot_cell_cells)
  have "cells 2 (w * h)
      (S \<union> (\<Union>dy \<in> set [- 3..3]. \<Union>dx \<in> set [- 3..3]. spot_hits w h x y dy dx))
      (fold (\<lambda>dy. fold (\<lambda>dx. spot_cell w h x y dy dx) [- 3..3]) [- 3..3] g)"
    using assms by (intro fold_cells row)
  then show ?thesis
    unfolding add_spot_def spot_set_def set_upto .
qed

lemma add_spot4_cells:
  assumes "cells 4 (w * h) S g"
  shows "cells 4 (w * h) (S \<union> spot_set w h x y) (add_spot4 w h x y g)"
proof -
  have row: "cells 4 (w * h) (S' \<union> (\<Union>dx \<in> set [- 3..3]. spot_hits w h x y dy dx))
      (fold (\<lambda>dx. spot_texel w h x y dy dx) [- 3..3] g')"
    if "cells 4 (w * h) S' g'" for S' g' dy
    using that by (intro fold_cells spot_texel_cells)
  have "cells 4 (w * h)
      (S \<union> (\<Union>dy \<in> set [- 3..3]. \<Union>dx \<in> set [- 3..3]. spot_hits w h x y dy dx))
      (fold (\<lambda>dy. fold (\<lambda>dx. spot_texel w h x y dy dx) [- 3..3]) [- 3..3] g)"
    using assms by (intro fold_cells row)
  then show ?thesis
    unfolding add_spot4_def spot_set_def set_upto .
qed

lemma fill_A_cells: "cells 2 n {} (fill_A (new_Float32Array (n * 2)))"
proof -
  let ?f = "\<lambda>j g. g[2 * j := 1, 2 * j + 1 := (0::real)]"
  let ?z = "replicate (n * 2) (0::real)"
  have inv: "m \<le> n \<Longrightarrow> length (fold ?f [0..<m] ?z) = n * 2 \<and>
      (\<forall>c < m. fold ?f [0..<m] ?z ! (c * 2) = 1 \<and> fold ?f [0..<m] ?z ! (c * 2 + 1) = 0)" for m
  proof (induction m)
    case 0
    then show ?case by simp
  next
    case (Suc m)
    then have IH: "length (fold ?f [0..<m] ?z) = n * 2"
      "\<And>c. c < m \<Longrightarrow> fold ?f [0..<m] ?z ! (c * 2) = 1 \<and> fold ?f [0..<m] ?z ! (c * 2 + 1) = 0"
      by simp_all
    have m: "2 * m + 1 < n * 2" using Suc.prems by simp
    show ?case
    proof (intro conjI allI impI)
      show "length (fold ?f [0..<Suc m] ?z) = n * 2" using IH(1) by simp
    next
      fix c assume "c < Suc m"
      then consider "c = m" | "c < m" by linarith
      then show "fold ?f [0..<Suc m] ?z ! (c * 2) = 1"
        using IH m by cases (simp_all add: mult.commute)
    next
      fix c assume "c < Suc m"
      then consider "c = m" | "c < m" by linarith
      then show "fold ?f [0..<Suc m] ?z ! (c * 2 + 1) = 0"
        using IH m by cases (simp_all add: mult.commute)
    qed
  qed
  have "(n * 2 + 1) div 2 = n" by simp
  then show ?thesis
    using inv [of n] by (simp add: cells_def fill_A_def new_Float32Array_def)
qed

lemma fill_A4_cells: "cells 4 n {} (fill_A4 (new_Float32Array (n * 4)))"
proof -
  let ?f = "\<lambda>j g. g[4 * j := 1, 4 * j + 1 := 0, 4 * j + 2 := 0, 4 * j + 3 := (1::real)]"
  let ?z = "replicate (n * 4) (0::real)"
  have inv: "m \<le> n \<Longrightarrow> length (fold ?f [0..<m] ?z) = n * 4 \<and>
      (\<forall>c < m. fold ?f [0..<m] ?z ! (c * 4) = 1 \<and> fold ?f [0..<m] ?z ! (c * 4 + 1) = 0)" for m
  proof (induction m)
    case 0
    then show ?case by simp
  next
    case (Suc m)
    then have IH: "length (fold ?f [0..<m] ?z) = n * 4"
      "\<And>c. c < m \<Longrightarrow> fold ?f [0..<m] ?z ! (c * 4) = 1 \<and> fold ?f [0..<m] ?z ! (c * 4 + 1) = 0"
      by simp_all
    have m: "4 * m + 3 < n * 4" using Suc.prems by simp
    show ?case
    proof (intro conjI allI impI)
      show "length (fold ?f [0..<Suc m] ?z) = n * 4" using IH(1) by simp
    next
      fix c assume "c < Suc m"
      then consider "c = m" | "c < m" by linarith
      then show "fold ?f [0..<Suc m] ?z ! (c * 4) = 1"
        using IH m by cases (simp_all add: mult.commute)
    next
      fix c assume "c < Suc m"
      then consider "c = m" | "c < m" by linarith
      then show "fold ?f [0..<Suc m] ?z ! (c * 4 + 1) = 0"
        using IH m by cases (simp_all add: mult.commute)
    qed
  qed
  have "(n * 4 + 3) div 4 = n" by simp
  then show ?thesis
    using inv [of n] by (simp add: cells_def fill_A4_def new_Float32Array_def)
qed

lemma disc_bounds:
  fixes dx dy :: int
  assumes "dx * dx + dy * dy \<le> 9"
  shows "- 3 \<le> dx" and "dx \<le> 3" and "- 3 \<le> dy" and "dy \<le> 3"
proof -
  have small: "\<bar>d\<bar> \<le> 3" if "d * d \<le> 9" for d :: int
  proof (rule ccontr)
    assume "\<not> \<bar>d\<bar> \<le> 3"
    then have "4 \<le> \<bar>d\<bar>" by simp
    then have "4 * 4 \<le> \<bar>d\<bar> * \<bar>d\<bar>" by (intro mult_mono) simp_all
    then show False using that by (simp add: abs_mult_self_eq)
  qed
  have "0 \<le> dx * dx" "0 \<le> dy * dy" by simp_all
  then have "dx * dx \<le> 9" "dy * dy \<le> 9" using assms by linarith+
  then have "\<bar>dx\<bar> \<le> 3" "\<bar>dy\<bar> \<le> 3" by (simp_all add: small)
  then show "- 3 \<le> dx" and "dx \<le> 3" and "- 3 \<le> dy" and "dy \<le> 3" by linarith+
qed

lemma disc_edge:
  fixes d e :: int
  assumes "d * d + e * e \<le> 9" and "d = - 3 \<or> e = - 3"
  shows "(d = - 3 \<longrightarrow> e = 0) \<and> (e = - 3 \<longrightarrow> d = 0)"
proof -
  have z: "v = 0" if "v * v \<le> 0" for v :: int
    using that zero_le_square [of v] by (simp add: order_antisym_conv)
  show ?thesis
  proof (intro conjI impI)
    assume "d = - 3"
    then have "e * e \<le> 0" using assms(1) by simp
    then show "e = 0" by (rule z)
  next
    assume "e = - 3"
    then have "d * d \<le> 0" using assms(1) by simp
    then show "d = 0" by (rule z)
  qed
qed

lemma hit_iff: "c \<in> hit n cj \<longleftrightarrow> cj = int c \<and> c < n"
  by (auto simp: hit_def)

lemma cell_unique:
  fixes px py :: int
  assumes "0 \<le> px" and "px < int w" and "py * int w + px = int (cy * w + cx)" and "cx < w"
  shows "px = int cx \<and> py = int cy"
proof -
  have "(py * int w + px) mod int w = px" using assms(1,2) by simp
  moreover have "int (cy * w + cx) mod int w = int cx" using assms(4) by simp
  ultimately have px: "px = int cx" using assms(3) by simp
  then have "py * int w = int cy * int w" using assms(3) by simp
  then have "py = int cy" using assms(4) by simp
  with px show ?thesis by simp
qed

lemma wrap_same:
  fixes x :: int
  assumes "0 \<le> x" and "x < int n"
  shows "js_rem (x + 0 + int n) (int n) = x"
proof -
  have "js_rem (x + 0 + int n) (int n) = (x + 0 + int n) mod int n"
    using assms by (intro js_rem_nonneg) simp_all
  then show ?thesis using assms by simp
qed

lemma spot_set_sound:
  assumes x: "0 \<le> x" "x < int w" and y: "0 \<le> y" "y < int h"
    and c: "cx < w" "cy < h" and hit: "cy * w + cx \<in> spot_set w h x y"
  shows "\<exists>dx dy. dx * dx + dy * dy \<le> 9 \<and> int cx = (x + dx) mod int w \<and>
    int cy = (y + dy) mod int h"
proof -
  from hit obtain dy dx where d: "- 3 \<le> dy" "- 3 \<le> dx"
    and disc: "dx * dx + dy * dy \<le> 9"
    and cell: "js_cell w h x y dy dx = int (cy * w + cx)"
    unfolding spot_set_def spot_hits_def by (auto simp: hit_iff split: if_splits)
  let ?px = "js_rem (x + dx + int w) (int w)" and ?py = "js_rem (y + dy + int h) (int h)"
  have w: "0 < int w" and h: "0 < int h" using c by simp_all
  have eq: "?py * int w + ?px = int (cy * w + cx)"
    using cell by (simp add: js_cell_def)
  have X: "?px = (x + dx) mod int w \<or> (int w = 2 \<and> x = 0 \<and> dx = - 3 \<and> ?px = - 1)"
    using w x d(2) by (rule js_rem_wrap)
  have Y: "?py = (y + dy) mod int h \<or> (int h = 2 \<and> y = 0 \<and> dy = - 3 \<and> ?py = - 1)"
    using h y d(1) by (rule js_rem_wrap)
  from X show ?thesis
  proof
    assume px: "?px = (x + dx) mod int w"
    then have pxr: "0 \<le> ?px" "?px < int w" using w by simp_all
    from Y show ?thesis
    proof
      assume py: "?py = (y + dy) mod int h"
      have "?px = int cx \<and> ?py = int cy"
        using pxr eq c(1) by (rule cell_unique)
      then show ?thesis using px py disc by metis
    next
      assume bad: "int h = 2 \<and> y = 0 \<and> dy = - 3 \<and> ?py = - 1"
      then have "?py = - 1" by blast
      then have "?py * int w + ?px < 0" using pxr by simp
      moreover have "0 \<le> int (cy * w + cx)" by (rule of_nat_0_le_iff)
      ultimately show ?thesis using eq by linarith
    qed
  next
    assume bad: "int w = 2 \<and> x = 0 \<and> dx = - 3 \<and> ?px = - 1"
    then have dy0: "dy = 0" using disc_edge [OF disc] by simp
    then have py: "?py = y" using wrap_same [OF y] by simp
    have w2: "w = 2" using bad by simp
    have px1: "?px = - 1" using bad by blast
    have "y * int w + - 1 = int (cy * w + cx)"
      using eq unfolding py px1 .
    moreover have "int (cy * w + cx) = int cy * 2 + int cx" "int w = 2"
      using w2 by simp_all
    ultimately have lin: "y * 2 - 1 = int cy * 2 + int cx"
      by simp
    have "cx < 2" using c(1) w2 by simp
    then have cx1: "int cx = 1" using lin by presburger
    then have cy1: "int cy = y - 1" using lin by linarith
    have "0 \<le> y - 1" using cy1 by linarith
    then have "(y + - 1) mod int h = y - 1" using y by simp
    moreover have "(x + - 1) mod int w = 1" using bad by simp
    moreover have "(- 1) * (- 1) + (- 1) * (- 1) \<le> (9::int)" by simp
    ultimately show ?thesis using cx1 cy1 by metis
  qed
qed

lemma spot_set_complete:
  assumes x: "0 \<le> x" "x < int w" and y: "0 \<le> y" "y < int h"
    and disc: "dx * dx + dy * dy \<le> 9"
    and cx: "int cx = (x + dx) mod int w" and cy: "int cy = (y + dy) mod int h"
  shows "cy * w + cx \<in> spot_set w h x y"
proof -
  have w: "0 < int w" and h: "0 < int h" using x y by simp_all
  have cxw: "cx < w" using cx w by (metis of_nat_less_iff pos_mod_bound)
  have cyh: "cy < h" using cy h by (metis of_nat_less_iff pos_mod_bound)
  have lt: "cy * w + cx < w * h" using cxw cyh by (rule cell_index_less)
  have b: "- 3 \<le> dx" "dx \<le> 3" "- 3 \<le> dy" "dy \<le> 3" using disc_bounds [OF disc] by simp_all
  have member: "cy * w + cx \<in> spot_set w h x y"
    if "- 3 \<le> dy'" "dy' \<le> 3" "- 3 \<le> dx'" "dx' \<le> 3" "dx' * dx' + dy' * dy' \<le> 9"
      "js_cell w h x y dy' dx' = int (cy * w + cx)" for dx' dy'
  proof -
    have "cy * w + cx \<in> spot_hits w h x y dy' dx'"
      using that(5,6) lt by (simp add: spot_hits_def hit_iff)
    moreover have "dy' \<in> {- 3..3}" "dx' \<in> {- 3..3}"
      using that(1-4) by simp_all
    ultimately show ?thesis
      unfolding spot_set_def by blast
  qed
  let ?px = "js_rem (x + dx + int w) (int w)" and ?py = "js_rem (y + dy + int h) (int h)"
  have X: "?px = (x + dx) mod int w \<or> (int w = 2 \<and> x = 0 \<and> dx = - 3 \<and> ?px = - 1)"
    using w x b(1) by (rule js_rem_wrap)
  have Y: "?py = (y + dy) mod int h \<or> (int h = 2 \<and> y = 0 \<and> dy = - 3 \<and> ?py = - 1)"
    using h y b(3) by (rule js_rem_wrap)
  from X show ?thesis
  proof
    assume px: "?px = (x + dx) mod int w"
    from Y show ?thesis
    proof
      assume py: "?py = (y + dy) mod int h"
      have "js_cell w h x y dy dx = int (cy * w + cx)"
        using px py cx cy by (simp add: js_cell_def)
      with b disc show ?thesis by (intro member [of dy dx]) simp_all
    next
      assume bad: "int h = 2 \<and> y = 0 \<and> dy = - 3 \<and> ?py = - 1"
      then have dx0: "dx = 0" using disc_edge [OF disc] by simp
      have cx': "int cx = x" using cx dx0 x by simp
      have cy': "int cy = 1" using cy bad by simp
      have "js_rem (y + - 1 + int h) (int h) = 1" using bad by (simp add: js_rem_def)
      moreover have "js_rem (x + 0 + int w) (int w) = x" using x by (rule wrap_same)
      ultimately have "js_cell w h x y (- 1) 0 = int (cy * w + cx)"
        using cx' cy' by (simp add: js_cell_def)
      then show ?thesis by (intro member [of "- 1" 0]) simp_all
    qed
  next
    assume bad: "int w = 2 \<and> x = 0 \<and> dx = - 3 \<and> ?px = - 1"
    then have dy0: "dy = 0" using disc_edge [OF disc] by simp
    have cy': "int cy = y" using cy dy0 y by simp
    have cx': "int cx = 1" using cx bad by simp
    have "js_rem (x + - 1 + int w) (int w) = 1" using bad by (simp add: js_rem_def)
    moreover have "js_rem (y + 0 + int h) (int h) = y" using y by (rule wrap_same)
    ultimately have "js_cell w h x y 0 (- 1) = int (cy * w + cx)"
      using cx' cy' by (simp add: js_cell_def)
    then show ?thesis by (intro member [of 0 "- 1"]) simp_all
  qed
qed

lemma seed_range:
  assumes "0 \<le> r" and "r < 1" and "0 < n"
  shows "0 \<le> \<lfloor>r * real n\<rfloor>" and "\<lfloor>r * real n\<rfloor> < int n"
proof -
  have "0 \<le> r * real n" using assms(1) by simp
  then show "0 \<le> \<lfloor>r * real n\<rfloor>" by simp
  have "r * real n < 1 * real n"
    using assms(2,3) by (intro mult_strict_right_mono) simp_all
  then show "\<lfloor>r * real n\<rfloor> < int n" by (simp add: floor_less_iff)
qed

lemma in_some_spot_iff:
  assumes "0 < w" and "0 < h" and "\<forall>k. 0 \<le> random k \<and> random k < 1"
    and "cx < w" and "cy < h"
  shows "cy * w + cx \<in> (\<Union>i \<in> {0..<20}. spot_set w h (seed_x random w i) (seed_y random h i))
    \<longleftrightarrow> in_some_spot random w h cx cy"
proof -
  have x: "0 \<le> seed_x random w i" "seed_x random w i < int w" for i
    unfolding seed_x_def using assms(1,3) by (simp_all add: seed_range)
  have y: "0 \<le> seed_y random h i" "seed_y random h i < int h" for i
    unfolding seed_y_def using assms(2,3) by (simp_all add: seed_range)
  define Q where "Q i \<longleftrightarrow> (\<exists>dx dy. dx * dx + dy * dy \<le> 9 \<and>
      int cx = (seed_x random w i + dx) mod int w \<and>
      int cy = (seed_y random h i + dy) mod int h)" for i
  have one: "cy * w + cx \<in> spot_set w h (seed_x random w i) (seed_y random h i) \<longleftrightarrow> Q i"
    for i
    unfolding Q_def
    using spot_set_sound [OF x y assms(4,5)] spot_set_complete [OF x y] by blast
  have "cy * w + cx \<in> (\<Union>i \<in> {0..<20}. spot_set w h (seed_x random w i) (seed_y random h i))
      \<longleftrightarrow> (\<exists>i < 20. Q i)"
    using one by auto
  then show ?thesis
    unfolding in_some_spot_def Q_def .
qed

lemma cells_nth:
  assumes "cells k n S g" and "c < n"
  shows "length g = n * k" and "g ! (c * k) = (if c \<in> S then 0 else 1)"
    and "g ! (c * k + 1) = (if c \<in> S then 1 else 0)"
  using assms by (simp_all add: cells_def)

lemma initGrid_cells:
  "cells 2 (w * h) (\<Union>i \<in> {0..<20}. spot_set w h (seed_x random w i) (seed_y random h i))
     (fold (\<lambda>i. add_spot w h (seed_x random w i) (seed_y random h i)) [0..<20]
        (fill_A (new_Float32Array (w * h * 2))))"
proof -
  have "cells 2 (w * h)
     ({} \<union> (\<Union>i \<in> set [0..<20]. spot_set w h (seed_x random w i) (seed_y random h i)))
     (fold (\<lambda>i. add_spot w h (seed_x random w i) (seed_y random h i)) [0..<20]
        (fill_A (new_Float32Array (w * h * 2))))"
    by (intro fold_cells add_spot_cells fill_A_cells)
  then show ?thesis
    unfolding set_upt Un_empty_left .
qed

lemma initializeTexture_cells:
  "cells 4 (w * h) (\<Union>i \<in> {0..<20}. spot_set w h (seed_x random w i) (seed_y random h i))
     (tex_data (initializeTexture random w h t))"
proof -
  have "cells 4 (w * h)
     ({} \<union> (\<Union>i \<in> set [0..<20]. spot_set w h (seed_x random w i) (seed_y random h i)))
     (fold (\<lambda>i. add_spot4 w h (seed_x random w i) (seed_y random h i)) [0..<20]
        (fill_A4 (new_Float32Array (w * h * 4))))"
    by (intro fold_cells add_spot4_cells fill_A4_cells)
  then show ?thesis
    unfolding set_upt Un_empty_left by (simp add: initializeTexture_def Let_def)
qed

lemma glsl_clamp_unit: "glsl_clamp x 0 1 = max 0 (min 1 x)"
  by (simp add: glsl_clamp_def min_def max_def)

section \<open>The two variants compared\<close>

lemma texel_wrap:
  assumes "x < n" and "- 1 \<le> d" and "d \<le> 1"
  shows "\<lfloor>frac ((real x + 1 / 2) / real n + of_int d * (1 / real n)) * real n\<rfloor>
    = (int x + d) mod int n"
proof -
  have n: "0 < real n" using assms(1) by simp
  let ?m = "(int x + d) mod int n" and ?q = "(int x + d) div int n"
  have m: "0 \<le> ?m" "?m < int n" using assms(1) by simp_all
  have split: "real_of_int (int x + d) = of_int ?q * real n + of_int ?m"
    by (metis mult.commute mult_div_mod_eq of_int_add of_int_mult of_int_of_nat_eq)
  let ?a = "(of_int ?m + 1 / 2) / real n"
  have v: "(real x + 1 / 2) / real n + of_int d * (1 / real n) = of_int ?q + ?a"
  proof -
    have "(real x + 1 / 2) / real n + of_int d * (1 / real n)
        = (real_of_int (int x + d) + 1 / 2) / real n"
      using n by (simp add: field_simps)
    also have "\<dots> = (of_int ?q * real n + of_int ?m + 1 / 2) / real n"
      by (simp only: split)
    also have "\<dots> = of_int ?q + ?a"
      using n by (simp add: field_simps)
    finally show ?thesis .
  qed
  have a0: "0 \<le> ?a" using m(1) n by simp
  have "real_of_int ?m + 1 / 2 < real n"
  proof -
    have "?m + 1 \<le> int n" using m(2) by simp
    then have "real_of_int (?m + 1) \<le> real n" by (metis of_int_le_iff of_int_of_nat_eq)
    then show ?thesis by simp
  qed
  then have a1: "?a < 1" using n by (simp add: field_simps)
  have "frac (of_int ?q + ?a) = ?a"
    using a0 a1 by (simp add: frac_unique_iff)
  then have "frac ((real x + 1 / 2) / real n + of_int d * (1 / real n)) * real n
      = of_int ?m + 1 / 2"
    unfolding v using n by simp
  then show ?thesis
    by (simp add: floor_eq_iff)
qed

lemma frag_coord_cell:
  "x < w \<Longrightarrow> frag_coord w (y * w + x) = (real x + 1 / 2, real y + 1 / 2)"
  by (simp add: frag_coord_def)

lemma nb_idx_wrap:
  assumes "x < w" and "y < h" and "- 1 \<le> dx" and "- 1 \<le> dy"
  shows "nb_idx w h x y dx dy
    = int (2 * (nat ((int y + dy) mod int h) * w + nat ((int x + dx) mod int w)))"
proof -
  have "0 \<le> (int x + dx) mod int w" "0 \<le> (int y + dy) mod int h"
    using assms(1,2) by simp_all
  then show ?thesis
    using assms by (simp add: nb_idx_def Let_def js_rem_nonneg)
qed

lemma texture_neighbor:
  assumes "same_cells w h g t" and "x < w" and "y < h"
    and "- 1 \<le> dx" and "dx \<le> 1" and "- 1 \<le> dy" and "dy \<le> 1"
  shows "fst (texture t ((real x + 1 / 2) / real w + of_int dx * (1 / real w),
                          (real y + 1 / 2) / real h + of_int dy * (1 / real h)))
      = f32_get g (nb_idx w h x y dx dy)"
    and "fst (snd (texture t ((real x + 1 / 2) / real w + of_int dx * (1 / real w),
                          (real y + 1 / 2) / real h + of_int dy * (1 / real h))))
      = f32_get g (nb_idx w h x y dx dy + 1)"
proof -
  let ?px = "nat ((int x + dx) mod int w)" and ?py = "nat ((int y + dy) mod int h)"
  have dims: "tex_width t = w" "tex_height t = h"
    using assms(1) by (simp_all add: same_cells_def)
  have px: "?px < w" and py: "?py < h"
    using assms(2,3) by (simp_all add: nat_less_iff)
  have c: "?py * w + ?px < w * h" using px py by (rule cell_index_less)
  have tx: "nat \<lfloor>frac ((real x + 1 / 2) / real w + of_int dx * (1 / real w)) * real w\<rfloor> = ?px"
    using texel_wrap [OF assms(2,4,5)] by simp
  have ty: "nat \<lfloor>frac ((real y + 1 / 2) / real h + of_int dy * (1 / real h)) * real h\<rfloor> = ?py"
    using texel_wrap [OF assms(3,6,7)] by simp
  have tex: "tex_data t ! (4 * (?py * w + ?px)) = g ! (2 * (?py * w + ?px))"
    "tex_data t ! (4 * (?py * w + ?px) + 1) = g ! (2 * (?py * w + ?px) + 1)"
    using assms(1) c unfolding same_cells_def by blast+
  have nb: "nat (nb_idx w h x y dx dy) = 2 * (?py * w + ?px)"
    "nat (nb_idx w h x y dx dy + 1) = 2 * (?py * w + ?px) + 1"
    unfolding nb_idx_wrap [OF assms(2,3,4,6)] by (simp_all only: nat_int)
  show "fst (texture t ((real x + 1 / 2) / real w + of_int dx * (1 / real w),
                          (real y + 1 / 2) / real h + of_int dy * (1 / real h)))
      = f32_get g (nb_idx w h x y dx dy)"
    unfolding texture_def Let_def fst_conv snd_conv dims tx ty f32_get_def nb
    using tex(1) by (simp add: mult.commute)
  show "fst (snd (texture t ((real x + 1 / 2) / real w + of_int dx * (1 / real w),
                          (real y + 1 / 2) / real h + of_int dy * (1 / real h))))
      = f32_get g (nb_idx w h x y dx dy + 1)"
    unfolding texture_def Let_def fst_conv snd_conv dims tx ty f32_get_def nb
    using tex(2) by (simp add: mult.commute)
qed

lemma computeShader_matches:
  assumes "same_cells w h g t" and "x < w" and "y < h"
  shows "computeShader (compute_uniforms p w h) t (frag_coord w (y * w + x))
    = (fst (cell_out (p\<lparr> killMax := killMin p \<rparr>) w h g y x),
       snd (cell_out (p\<lparr> killMax := killMin p \<rparr>) w h g y x), 0, 1)"
proof -
  define uv where "uv = ((real x + 1 / 2) / real w, (real y + 1 / 2) / real h)"
  define ts where "ts = (1 / real w, 1 / real h)"
  have acc: "shader_laplace_acc t uv ts dy dx a = laplace_acc w h g x y dy dx a"
    if "- 1 \<le> dx" "dx \<le> 1" "- 1 \<le> dy" "dy \<le> 1" for dx dy a
    by (simp only: shader_laplace_acc_def laplace_acc_def Let_def uv_def ts_def fst_conv
        snd_conv texture_neighbor [OF assms that] shader_weight_def weight_def)
  have lap: "shader_laplace t uv ts = laplace w h g x y"
    by (simp add: shader_laplace_def laplace_def acc)
  have "nb_idx w h x y 0 0 = int ((y * w + x) * 2)"
    using assms(2,3) by (simp add: nb_idx_wrap)
  then have nb0: "nat (nb_idx w h x y 0 0) = (y * w + x) * 2"
    "nat (nb_idx w h x y 0 0 + 1) = (y * w + x) * 2 + 1"
    by (simp_all only: nat_int)
  have self: "fst (texture t uv) = g ! ((y * w + x) * 2)"
    "fst (snd (texture t uv)) = g ! ((y * w + x) * 2 + 1)"
    using texture_neighbor [OF assms, of 0 0] unfolding f32_get_def nb0 uv_def by simp_all
  have kr: "killRate (p\<lparr> killMax := killMin p \<rparr>) w x = killMin p"
    by (simp add: killRate_def)
  have fr: "feedRate (p\<lparr> killMax := killMin p \<rparr>) = feedRate p"
    by (simp add: feedRate_def)
  have res: "fst (u_resolution (compute_uniforms p w h)) = real w"
    "snd (u_resolution (compute_uniforms p w h)) = real h"
    by (simp_all add: compute_uniforms_def)
  have frag: "frag_coord w (y * w + x) = (real x + 1 / 2, real y + 1 / 2)"
    using assms(2) by (rule frag_coord_cell)
  show ?thesis
    unfolding computeShader_def cell_out_def Let_def frag fst_conv snd_conv res
      uv_def [symmetric] ts_def [symmetric] lap self kr fr
    by (simp add: compute_uniforms_def feedRate_def glsl_clamp_unit mult.commute
        split: prod.splits)
qed

lemma draw_compute_matches_step_grid:
  assumes "same_cells w h cur src" and "tex_width dst = w" and "tex_height dst = h"
    and "length nxt = w * h * 2"
  shows "same_cells w h (step_grid (p\<lparr> killMax := killMin p \<rparr>) w h cur nxt)
    (draw_compute (compute_uniforms p w h) src dst)"
  unfolding same_cells_def
proof (intro conjI allI impI)
  show "tex_width (draw_compute (compute_uniforms p w h) src dst) = w"
    and "tex_height (draw_compute (compute_uniforms p w h) src dst) = h"
    using assms(2,3) by simp_all
next
  fix c assume c: "c < w * h"
  let ?q = "p\<lparr> killMax := killMin p \<rparr>"
  have w: "0 < w" using c by (cases w) simp_all
  have x: "c mod w < w" using w by simp
  have y: "c div w < h" using c by (simp add: less_mult_imp_div_less mult.commute)
  have cd: "c div w * w + c mod w = c" by simp
  have c': "c < tex_width dst * tex_height dst" using c assms(2,3) by simp
  have sh: "computeShader (compute_uniforms p w h) src (frag_coord (tex_width dst) c)
      = (fst (cell_out ?q w h cur (c div w) (c mod w)),
         snd (cell_out ?q w h cur (c div w) (c mod w)), 0, 1)"
    using computeShader_matches [OF assms(1) x y, of p] unfolding cd assms(2) .
  have "tex_data (draw_compute (compute_uniforms p w h) src dst) ! (c * 4 + 0)
      = vec4_list (computeShader (compute_uniforms p w h) src (frag_coord (tex_width dst) c)) ! 0"
    using c' by (rule draw_compute_nth) simp
  then have g0: "tex_data (draw_compute (compute_uniforms p w h) src dst) ! (c * 4 + 0)
      = fst (cell_out ?q w h cur (c div w) (c mod w))"
    unfolding sh by (simp add: vec4_list_def)
  have "tex_data (draw_compute (compute_uniforms p w h) src dst) ! (c * 4 + 1)
      = vec4_list (computeShader (compute_uniforms p w h) src (frag_coord (tex_width dst) c)) ! 1"
    using c' by (rule draw_compute_nth) simp
  then have g1: "tex_data (draw_compute (compute_uniforms p w h) src dst) ! (c * 4 + 1)
      = snd (cell_out ?q w h cur (c div w) (c mod w))"
    unfolding sh by (simp add: vec4_list_def)
  have k: "2 * c < w * h * 2" "2 * c + 1 < w * h * 2" using c by simp_all
  have s0: "step_grid ?q w h cur nxt ! (2 * c) = fst (cell_out ?q w h cur (c div w) (c mod w))"
    unfolding step_grid_nth [OF assms(4) k(1)] by (simp add: grid_val_def)
  have s1: "step_grid ?q w h cur nxt ! (2 * c + 1)
      = snd (cell_out ?q w h cur (c div w) (c mod w))"
    unfolding step_grid_nth [OF assms(4) k(2)] by (simp add: grid_val_def)
  show "tex_data (draw_compute (compute_uniforms p w h) src dst) ! (4 * c)
      = step_grid ?q w h cur nxt ! (2 * c)"
    using g0 s0 by (simp add: mult.commute)
  show "tex_data (draw_compute (compute_uniforms p w h) src dst) ! (4 * c + 1)
      = step_grid ?q w h cur nxt ! (2 * c + 1)"
    using g1 s1 by (simp add: mult.commute)
qed

lemma kernels_agree_without_gradient:
  assumes "killMax p = killMin p" and "same_cells w h cur src"
    and "tex_width dst = w" and "tex_height dst = h" and "length nxt = w * h * 2"
  shows "same_cells w h (step_grid p w h cur nxt)
    (draw_compute (compute_uniforms p w h) src dst)"
proof -
  have "p\<lparr> killMax := killMin p \<rparr> = p" using assms(1) by simp
  then show ?thesis
    using draw_compute_matches_step_grid [OF assms(2-5), of p] by simp
qed

lemma initGrid_data:
  "canvasRef s = Some (w, h) \<Longrightarrow>
   initGrid random s = s\<lparr> currentGridRef := Some (init_grid_data random w h),
                           nextGridRef := Some (new_Float32Array (w * h * 2)) \<rparr>"
  by (simp add: initGrid_def init_grid_data_def Let_def)

lemma seed_spots_nth:
  assumes "0 < w" and "0 < h" and "\<forall>k. 0 \<le> random k \<and> random k < 1"
    and "cx < w" and "cy < h"
  shows "length (init_grid_data random w h) = w * h * 2"
    and "init_grid_data random w h ! ((cy * w + cx) * 2)
      = (if in_some_spot random w h cx cy then 0 else 1)"
    and "init_grid_data random w h ! ((cy * w + cx) * 2 + 1)
      = (if in_some_spot random w h cx cy then 1 else 0)"
    and "tex_data (initializeTexture random w h t) ! ((cy * w + cx) * 4)
      = (if in_some_spot random w h cx cy then 0 else 1)"
    and "tex_data (initializeTexture random w h t) ! ((cy * w + cx) * 4 + 1)
      = (if in_some_spot random w h cx cy then 1 else 0)"
proof -
  have c: "cy * w + cx < w * h" using assms(4,5) by (rule cell_index_less)
  have S: "cy * w + cx \<in> (\<Union>i \<in> {0..<20}. spot_set w h (seed_x random w i) (seed_y random h i))
      \<longleftrightarrow> in_some_spot random w h cx cy"
    using assms by (rule in_some_spot_iff)
  show "length (init_grid_data random w h) = w * h * 2"
    and "init_grid_data random w h ! ((cy * w + cx) * 2)
      = (if in_some_spot random w h cx cy then 0 else 1)"
    and "init_grid_data random w h ! ((cy * w + cx) * 2 + 1)
      = (if in_some_spot random w h cx cy then 1 else 0)"
    using cells_nth [OF initGrid_cells c, of random] unfolding S init_grid_data_def by blast+
  show "tex_data (initializeTexture random w h t) ! ((cy * w + cx) * 4)
      = (if in_some_spot random w h cx cy then 0 else 1)"
    and "tex_data (initializeTexture random w h t) ! ((cy * w + cx) * 4 + 1)
      = (if in_some_spot random w h cx cy then 1 else 0)"
    using cells_nth [OF initializeTexture_cells c, of random t] unfolding S by blast+
qed

lemma init_same_cells:
  "same_cells w h (init_grid_data random w h) (initializeTexture random w h t)"
proof -
  let ?S = "\<Union>i \<in> {0..<20}. spot_set w h (seed_x random w i) (seed_y random h i)"
  have g: "cells 2 (w * h) ?S (init_grid_data random w h)"
    unfolding init_grid_data_def by (rule initGrid_cells)
  have t: "cells 4 (w * h) ?S (tex_data (initializeTexture random w h t))"
    by (rule initializeTexture_cells)
  have dims: "tex_width (initializeTexture random w h t) = w"
    "tex_height (initializeTexture random w h t) = h"
    by (simp_all add: initializeTexture_def Let_def)
  show ?thesis
    unfolding same_cells_def
  proof (intro conjI allI impI)
    fix c assume c: "c < w * h"
    show "tex_data (initializeTexture random w h t) ! (4 * c) = init_grid_data random w h ! (2 * c)"
      using cells_nth(2) [OF g c] cells_nth(2) [OF t c] by (simp add: mult.commute)
    show "tex_data (initializeTexture random w h t) ! (4 * c + 1)
        = init_grid_data random w h ! (2 * c + 1)"
      using cells_nth(3) [OF g c] cells_nth(3) [OF t c] by (simp add: mult.commute)
  qed (rule dims)+
qed

lemma laplace_patch:
  assumes "patch w h g x y a b"
  shows "laplace w h g x y = (0, 0)"
proof -
  have r: "f32_get g (nb_idx w h x y dx dy) = a" "f32_get g (nb_idx w h x y dx dy + 1) = b"
    if "- 1 \<le> dx" "dx \<le> 1" "- 1 \<le> dy" "dy \<le> 1" for dx dy
    using assms that unfolding patch_def by blast+
  show ?thesis
    by (simp add: laplace_def laplace_acc_def Let_def weight_def r)
qed

lemma cell_out_patch:
  assumes "patch w h g x y a b" and "x < w" and "y < h"
  shows "cell_out p w h g y x =
    (max 0 (min 1 (a + (- (a * b * b) + feedRate p * (1 - a)))),
     max 0 (min 1 (b + (a * b * b - (feedRate p + killRate p w x) * b))))"
proof -
  have "nb_idx w h x y 0 0 = int ((y * w + x) * 2)"
    using assms(2,3) by (simp add: nb_idx_wrap)
  then have nb0: "nat (nb_idx w h x y 0 0) = (y * w + x) * 2"
    "nat (nb_idx w h x y 0 0 + 1) = (y * w + x) * 2 + 1"
    by (simp_all only: nat_int)
  have "f32_get g (nb_idx w h x y 0 0) = a \<and> f32_get g (nb_idx w h x y 0 0 + 1) = b"
    using assms(1) unfolding patch_def by simp
  then have ab: "g ! ((y * w + x) * 2) = a" "g ! ((y * w + x) * 2 + 1) = b"
    unfolding f32_get_def nb0 by simp_all
  show ?thesis
    unfolding cell_out_def Let_def laplace_patch [OF assms(1)] ab by simp
qed

lemma centre_random_range: "\<forall>k. 0 \<le> centre_random k \<and> centre_random k < 1"
  by (simp add: centre_random_def)

lemma centre_patch: "patch 400 400 (init_grid_data centre_random 400 400) 200 200 0 1"
  unfolding patch_def
proof (intro allI impI)
  fix dx dy :: int
  assume b: "- 1 \<le> dx \<and> dx \<le> 1 \<and> - 1 \<le> dy \<and> dy \<le> 1"
  define cx where "cx = nat (200 + dx)"
  define cy where "cy = nat (200 + dy)"
  have cx: "int cx = 200 + dx" "cx < 400" and cy: "int cy = 200 + dy" "cy < 400"
    using b unfolding cx_def cy_def by linarith+
  have mx: "(int 200 + dx) mod int 400 = int cx" and my: "(int 200 + dy) mod int 400 = int cy"
    using b cx cy by simp_all
  have "nb_idx 400 400 200 200 dx dy = int (2 * (cy * 400 + cx))"
    using nb_idx_wrap [of 200 400 200 400 dx dy] b unfolding mx my by simp
  then have nb: "nat (nb_idx 400 400 200 200 dx dy) = (cy * 400 + cx) * 2"
    "nat (nb_idx 400 400 200 200 dx dy + 1) = (cy * 400 + cx) * 2 + 1"
    by (simp_all only: nat_int mult.commute)
  have "dx = - 1 \<or> dx = 0 \<or> dx = 1" "dy = - 1 \<or> dy = 0 \<or> dy = 1"
    using b by linarith+
  then have "dx * dx \<le> 1" "dy * dy \<le> 1"
    by auto
  then have disc: "dx * dx + dy * dy \<le> 9" by linarith
  have sx: "seed_x centre_random 400 0 = 200" and sy: "seed_y centre_random 400 0 = 200"
    by (simp_all add: seed_x_def seed_y_def centre_random_def)
  have "int cx = (seed_x centre_random 400 0 + dx) mod int 400"
    "int cy = (seed_y centre_random 400 0 + dy) mod int 400"
    using mx my unfolding sx sy by simp_all
  moreover have "(0::nat) < 20" by simp
  ultimately have spot: "in_some_spot centre_random 400 400 cx cy"
    unfolding in_some_spot_def using disc by blast
  have "init_grid_data centre_random 400 400 ! ((cy * 400 + cx) * 2) = 0"
    "init_grid_data centre_random 400 400 ! ((cy * 400 + cx) * 2 + 1) = 1"
    using seed_spots_nth(2,3) [OF _ _ centre_random_range cx(2) cy(2)] spot by simp_all
  then show "f32_get (init_grid_data centre_random 400 400) (nb_idx 400 400 200 200 dx dy) = 0 \<and>
      f32_get (init_grid_data centre_random 400 400) (nb_idx 400 400 200 200 dx dy + 1) = 1"
    unfolding f32_get_def nb by simp
qed

lemma centre_cell_out:
  "cell_out p 400 400 (init_grid_data centre_random 400 400) 200 200 =
    (max 0 (min 1 (feedRate p)), max 0 (min 1 (1 - (feedRate p + killRate p 400 200))))"
  using cell_out_patch [OF centre_patch, of p] by simp

lemma centre_step:
  "currentGridRef (computeStep p (initGrid centre_random canvas0)) =
     Some (step_grid p 400 400 (init_grid_data centre_random 400 400)
             (new_Float32Array (400 * 400 * 2)))"
proof -
  have "canvasRef canvas0 = Some (400, 400)" by (simp add: canvas0_def)
  then show ?thesis
    by (simp add: initGrid_data computeStep_def canvas0_def)
qed

lemma centre_step_b:
  "step_grid p 400 400 (init_grid_data centre_random 400 400)
     (new_Float32Array (400 * 400 * 2)) ! ((200 * 400 + 200) * 2 + 1)
   = max 0 (min 1 (1 - (feedRate p + killRate p 400 200)))"
proof -
  have "step_grid p 400 400 (init_grid_data centre_random 400 400)
      (new_Float32Array (400 * 400 * 2)) ! ((200 * 400 + 200) * 2 + 1)
    = grid_val p 400 400 (init_grid_data centre_random 400 400) ((200 * 400 + 200) * 2 + 1)"
    by (rule step_grid_nth) simp_all
  also have "\<dots> = snd (cell_out p 400 400 (init_grid_data centre_random 400 400) 200 200)"
    by (rule grid_val_odd) simp
  finally show ?thesis
    by (simp add: centre_cell_out)
qed

lemma centre_textures:
  "texturesRef (initWebGL centre_random 400 400) =
     [initializeTexture centre_random 400 400 (empty_texture 400 400), empty_texture 400 400]"
  by (simp add: initWebGL_def Let_def)

lemma centre_shader:
  "computeShader (compute_uniforms p 400 400)
     (initializeTexture centre_random 400 400 (empty_texture 400 400))
     (frag_coord 400 (200 * 400 + 200))
   = (max 0 (min 1 (feedRate p)), max 0 (min 1 (1 - (feedRate p + killMin p))), 0, 1)"
proof -
  have "computeShader (compute_uniforms p 400 400)
      (initializeTexture centre_random 400 400 (empty_texture 400 400))
      (frag_coord 400 (200 * 400 + 200))
    = (fst (cell_out (p\<lparr> killMax := killMin p \<rparr>) 400 400
              (init_grid_data centre_random 400 400) 200 200),
       snd (cell_out (p\<lparr> killMax := killMin p \<rparr>) 400 400
              (init_grid_data centre_random 400 400) 200 200), 0, 1)"
    by (rule computeShader_matches [OF init_same_cells]) simp_all
  then show ?thesis
    by (simp add: centre_cell_out feedRate_def killRate_def)
qed

lemma centre_draw_b:
  "tex_data (draw_compute (compute_uniforms p 400 400)
       (initializeTexture centre_random 400 400 (empty_texture 400 400))
       (empty_texture 400 400)) ! ((200 * 400 + 200) * 4 + 1)
   = max 0 (min 1 (1 - (feedRate p + killMin p)))"
proof -
  have "tex_data (draw_compute (compute_uniforms p 400 400)
       (initializeTexture centre_random 400 400 (empty_texture 400 400))
       (empty_texture 400 400)) ! ((200 * 400 + 200) * 4 + 1)
    = vec4_list (computeShader (compute_uniforms p 400 400)
        (initializeTexture centre_random 400 400 (empty_texture 400 400))
        (frag_coord (tex_width (empty_texture 400 400)) (200 * 400 + 200))) ! 1"
    (is "?lhs = ?rhs")
    by (rule draw_compute_nth) simp_all
  moreover have "tex_width (empty_texture 400 400) = 400" by simp
  ultimately have "?lhs = vec4_list (computeShader (compute_uniforms p 400 400)
        (initializeTexture centre_random 400 400 (empty_texture 400 400))
        (frag_coord 400 (200 * 400 + 200))) ! 1"
    by (simp only:)
  then show ?thesis
    unfolding centre_shader by (simp add: vec4_list_def)
qed

lemma centre_textures_nth:
  "texturesRef (initWebGL centre_random 400 400) ! 0
     = initializeTexture centre_random 400 400 (empty_texture 400 400)"
  "texturesRef (initWebGL centre_random 400 400) ! 1 = empty_texture 400 400"
  by (simp_all add: centre_textures)

lemma default_rates:
  "feedRate default_params = 0.03" "killRate default_params 400 200 = 0.0575"
  "killMin default_params = 0.056"
  "feedRate (default_params\<lparr> iterations := n \<rparr>) = 0.03"
  "killMin (default_params\<lparr> iterations := n \<rparr>) = 0.056"
  by (simp_all add: feedRate_def killRate_def default_params_def)

section \<open>Rounding\<close>

lemma expo_eqI: "2 powi e \<le> \<bar>x\<bar> \<Longrightarrow> \<bar>x\<bar> < 2 powi (e + 1) \<Longrightarrow> expo x = e"
proof -
  assume a: "2 powi e \<le> \<bar>x\<bar>" and b: "\<bar>x\<bar> < 2 powi (e + 1)"
  have "(0::real) < 2 powi e" by simp
  then have pos: "0 < \<bar>x\<bar>" using a by linarith
  have "2 powr (of_int e) \<le> \<bar>x\<bar>" using a by (simp add: powr_real_of_int')
  moreover have "\<bar>x\<bar> < 2 powr (of_int (e + 1))"
    using b powr_real_of_int' [of 2 "e + 1"] by simp
  then have "\<bar>x\<bar> < 2 powr (of_int e + 1)" by simp
  ultimately show ?thesis unfolding expo_def
    using floor_log_eq_powr_iff [of "\<bar>x\<bar>" 2 e] pos by simp
qed

lemma round_to_eval:
  assumes "2 powi e \<le> \<bar>x\<bar>" "\<bar>x\<bar> < 2 powi (e + 1)"
  shows "round_to p emin x = of_int (rne (x / 2 powi (max (e - p + 1) emin))) * 2 powi (max (e - p + 1) emin)"
proof -
  have "(0::real) < 2 powi e" by simp
  then have "0 < \<bar>x\<bar>" using assms(1) by linarith
  then have "x \<noteq> 0" by simp
  then show ?thesis unfolding round_to_def using expo_eqI [OF assms] by (simp add: Let_def)
qed





















lemma rne_near:
  assumes "\<bar>y - of_int n\<bar> < 1 / 2"
  shows "rne y = n"
proof (cases "of_int n \<le> y")
  case True
  then have "\<lfloor>y\<rfloor> = n" using assms by (intro floor_unique) linarith+
  then show ?thesis using assms True by (simp add: rne_def Let_def)
next
  case False
  then have "\<lfloor>y\<rfloor> = n - 1" using assms by (intro floor_unique) simp_all
  then show ?thesis using assms False by (simp add: rne_def Let_def)
qed



lemma round_to_near_one:
  assumes "\<bar>d\<bar> \<le> 2 powi (- 55)"
  shows "round_to 53 (- 1074) (1 + d) = 1"
proof (cases "0 \<le> d")
  case True
  have d: "d \<le> 1 / 2 ^ 55" using assms True by (simp add: power_int_minus_divide)
  have b: "2 powi 0 \<le> \<bar>1 + d\<bar>" "\<bar>1 + d\<bar> < 2 powi (0 + 1)"
    using True d by simp_all
  have "\<bar>(1 + d) / 2 powi (- 52) - of_int (2 ^ 52)\<bar> < 1 / 2"
    using True d by (simp add: power_int_minus_divide)
  then have "rne ((1 + d) / 2 powi (- 52)) = 2 ^ 52" by (rule rne_near)
  then show ?thesis
    unfolding round_to_eval [OF b] by (simp add: power_int_minus_divide)
next
  case False
  then have d: "- (1 / 2 ^ 55) \<le> d" "d < 0"
    using assms by (simp_all add: power_int_minus_divide)
  have b: "2 powi (- 1) \<le> \<bar>1 + d\<bar>" "\<bar>1 + d\<bar> < 2 powi (- 1 + 1)"
    using d by (simp_all add: power_int_minus_divide)
  have "\<bar>(1 + d) / 2 powi (- 53) - of_int (2 ^ 53)\<bar> < 1 / 2"
    using d by (simp add: power_int_minus_divide)
  then have "rne ((1 + d) / 2 powi (- 53)) = 2 ^ 53" by (rule rne_near)
  then show ?thesis
    unfolding round_to_eval [OF b] by (simp add: power_int_minus_divide)
qed

lemma fl64_cases: "(\<exists>r. fl64 x = Num r) \<or> fl64 x = PosInf \<or> fl64 x = NegInf"
  by (simp add: fl64_def Let_def)

lemma fl32_cases: "(\<exists>r. fl32 x = Num r) \<or> fl32 x = PosInf \<or> fl32 x = NegInf"
  by (simp add: fl32_def Let_def)

lemma fl64_zero [simp]: "fl64 0 = Num 0"
  by (simp add: fl64_def round_to_def)

lemma fl32_zero [simp]: "fl32 0 = Num 0"
  by (simp add: fl32_def round_to_def)












lemma fl32_not_NaN [simp]: "fl32 x \<noteq> NaN"
  by (simp add: fl32_def Let_def)

lemma fl64_not_NaN [simp]: "fl64 x \<noteq> NaN"
  by (simp add: fl64_def Let_def)


lemma js_add_NaN_right [simp]: "js_add u NaN = NaN"
  by (cases u) simp_all















section \<open>Properties of the floating-point kernel\<close>































































subsection \<open>The overflowing parameters\<close>











lemma js_sub_NaN_right [simp]: "js_sub u NaN = NaN"
  by (cases u) simp_all




subsection \<open>The uniform grid\<close>




















section \<open>Properties of the intensity mapper\<close>

lemma update_loop_funpow: "update_loop p s = (computeStep64 p ^^ iterations p) s"
proof -
  have "fold (\<lambda>i. computeStep64 p) [0..<n] s = (computeStep64 p ^^ n) s" for n
    by (induction n) simp_all
  then show ?thesis by (simp add: update_loop_def)
qed

lemma update_reads_final:
  "update host_pow p s =
     ((computeStep64 p ^^ iterations p) s, render host_pow p ((computeStep64 p ^^ iterations p) s))"
  by (simp add: update_def update_loop_funpow Let_def)


















lemma js_le_refl_Num: "js_le (Num x) (Num x)"
  by simp



lemma exact_eval_d2: "fl64 (3 / 4) = Num (3 / 4)"
  unfolding fl64_def by (simp add: round_to_eval [where e = "- 1"] rne_def)




section \<open>The claims\<close>




text \<open>
  C2 at a failing input. Both variants are initialised on the 400 by 400 canvas with the
  same outcomes of \<open>Math.random\<close> (so their cells agree, lemma \<open>init_same_cells\<close>) and
  make one step with the default parameters. The cell \<open>(200, 200)\<close>, the centre of a
  seed spot, then holds \<open>b = 0.9125\<close> in the next grid of the sequential kernel and
  \<open>b = 0.914\<close> in the texture written by the fragment shader. The two kernels agree
  exactly when the shader's kill rate \<open>killMin\<close> is used in both (lemma
  \<open>draw_compute_matches_step_grid\<close>).
\<close>

theorem C2_kernels_differ_at_cell_200_200:
  "(\<exists>cur. currentGridRef (computeStep default_params (initGrid centre_random canvas0)) = Some cur \<and>
      cur ! ((200 * 400 + 200) * 2 + 1) = 0.9125) \<and>
   tex_data (draw_compute (compute_uniforms default_params 400 400)
       (texturesRef (initWebGL centre_random 400 400) ! 0)
       (texturesRef (initWebGL centre_random 400 400) ! 1))
     ! ((200 * 400 + 200) * 4 + 1) = 0.914"
proof -
  have cpu: "step_grid default_params 400 400 (init_grid_data centre_random 400 400)
     (new_Float32Array (400 * 400 * 2)) ! ((200 * 400 + 200) * 2 + 1) = 0.9125"
    unfolding centre_step_b default_rates by simp
  have gpu: "tex_data (draw_compute (compute_uniforms default_params 400 400)
       (texturesRef (initWebGL centre_random 400 400) ! 0)
       (texturesRef (initWebGL centre_random 400 400) ! 1))
     ! ((200 * 400 + 200) * 4 + 1) = 0.914"
    unfolding centre_textures_nth centre_draw_b default_rates by simp
  show ?thesis
    using cpu gpu centre_step [of default_params] by blast
qed

text \<open>
  C3 at a failing input. The sequential kernel resolves the kill rate as
  \<open>killMin + (x / W) * (killMax - killMin)\<close> (lemma \<open>killRate_formula\<close>): 0.0575 at
  column 200 of 400 with the default parameters. The fragment shader receives \<open>killMin\<close>
  as its only kill rate and uses it at every column: at the fragment \<open>(200, 200)\<close> of the
  initial texture (\<open>a = 0, b = 1\<close>, equal neighbours) it computes
  \<open>b = 1 - (0.03 + 0.056)\<close>.
\<close>

theorem C3_shader_kill_rate_at_column_200:
  "killRate default_params 400 200
     = killMin default_params + (200 / 400) * (killMax default_params - killMin default_params) \<and>
   killRate default_params 400 200 = 0.0575 \<and>
   u_kill (compute_uniforms default_params 400 400) = 0.056 \<and>
   computeShader (compute_uniforms default_params 400 400)
     (texturesRef (initWebGL centre_random 400 400) ! 0) (frag_coord 400 (200 * 400 + 200))
     = (0.03, 1 - (0.03 + 0.056), 0, 1)"
proof -
  have "computeShader (compute_uniforms default_params 400 400)
     (texturesRef (initWebGL centre_random 400 400) ! 0) (frag_coord 400 (200 * 400 + 200))
     = (0.03, 1 - (0.03 + 0.056), 0, 1)"
    unfolding centre_textures_nth centre_shader default_rates by simp
  then show ?thesis
    by (simp add: killRate_def compute_uniforms_def default_params_def)
qed

text \<open>
  C4 at a failing input. With \<open>iterations = 1\<close> one update request of the WebGL variant
  runs the kernel once, from texture 0 into texture 1, and \<open>render\<close> then binds texture
  \<open>(1 + 1) mod 2 = 0\<close>: the state from before the request, not the result of the step
  (in general the result of step \<open>N - 1\<close>, lemma \<open>gl_render_texture_lags\<close>). At the texel
  \<open>(200, 200)\<close> of the initial state the mapper still reads \<open>b = 1\<close> where the step has
  written \<open>b = 0.914\<close>.
\<close>

theorem C4_render_reads_stale_texture:
  "gl_render_texture (default_params\<lparr> iterations := 1 \<rparr>)
     (gl_computeStep (default_params\<lparr> iterations := 1 \<rparr>) (initWebGL centre_random 400 400))
     = texturesRef (initWebGL centre_random 400 400) ! 0 \<and>
   tex_data (texturesRef (initWebGL centre_random 400 400) ! 0)
     ! ((200 * 400 + 200) * 4 + 1) = 1 \<and>
   tex_data (texturesRef
       (gl_computeStep (default_params\<lparr> iterations := 1 \<rparr>) (initWebGL centre_random 400 400)) ! 1)
     ! ((200 * 400 + 200) * 4 + 1) = 0.914"
proof -
  let ?p = "default_params\<lparr> iterations := 1 \<rparr>"
  let ?t0 = "initializeTexture centre_random 400 400 (empty_texture 400 400)"
  have it: "iterations ?p = Suc 0" by simp
  have ts: "texturesRef (gl_computeStep ?p (initWebGL centre_random 400 400)) =
      [?t0, draw_compute (compute_uniforms ?p 400 400) ?t0 (empty_texture 400 400)]"
    by (simp add: gl_computeStep_def ping_pong_def initWebGL_def Let_def)
  have w1: "texturesRef (gl_computeStep ?p (initWebGL centre_random 400 400)) ! 1
      = draw_compute (compute_uniforms ?p 400 400) ?t0 (empty_texture 400 400)"
    unfolding ts by simp
  have r: "gl_render_texture ?p (gl_computeStep ?p (initWebGL centre_random 400 400))
      = texturesRef (initWebGL centre_random 400 400) ! 0"
    unfolding gl_render_texture_def ts centre_textures by simp
  have "patch 400 400 (init_grid_data centre_random 400 400) 200 200 0 1"
    by (rule centre_patch)
  have spot: "in_some_spot centre_random 400 400 200 200"
  proof -
    have "(0::int) * 0 + 0 * 0 \<le> 9 \<and> int 200 = (seed_x centre_random 400 0 + 0) mod int 400 \<and>
        int 200 = (seed_y centre_random 400 0 + 0) mod int 400"
      by (simp add: seed_x_def seed_y_def centre_random_def)
    moreover have "(0::nat) < 20" by simp
    ultimately show ?thesis unfolding in_some_spot_def by blast
  qed
  have old: "tex_data (texturesRef (initWebGL centre_random 400 400) ! 0)
      ! ((200 * 400 + 200) * 4 + 1) = 1"
    unfolding centre_textures_nth
    using seed_spots_nth(5) [OF _ _ centre_random_range, of 400 400 200 200 "empty_texture 400 400"]
      spot by simp
  have new: "tex_data (texturesRef (gl_computeStep ?p (initWebGL centre_random 400 400)) ! 1)
      ! ((200 * 400 + 200) * 4 + 1) = 0.914"
    unfolding w1 centre_draw_b default_rates by simp
  show ?thesis
    by (intro conjI) (rule r old new)+
qed












text \<open>
  C9. For every grid size of at least 1 by 1 and every outcome of the 40 calls of
  \<open>Math.random\<close> (each in \<open>[0, 1)\<close>), after initialisation a cell holds exactly
  \<open>(a, b) = (0, 1)\<close> if and only if it is some seed centre plus an offset \<open>(dx, dy)\<close>
  with \<open>dx\<^sup>2 + dy\<^sup>2 \<le> 9\<close> modulo the grid size, and exactly \<open>(1, 0)\<close> otherwise; this holds for
  \<open>initGrid\<close> and for the first two channels of the texture that \<open>initializeTexture\<close>
  uploads. (On grids of width or height 2 the remainder of a negative number is negative
  in JavaScript; the stores it leads to are out of range or hit cells of the same spot.)
\<close>

theorem C9_seed_spots:
  assumes "0 < w" and "0 < h" and "\<forall>k. 0 \<le> random k \<and> random k < 1"
    and "cx < w" and "cy < h"
  shows "(canvasRef s = Some (w, h) \<longrightarrow>
      (\<exists>cur. currentGridRef (initGrid random s) = Some cur \<and> length cur = w * h * 2 \<and>
         cur ! ((cy * w + cx) * 2) = (if in_some_spot random w h cx cy then 0 else 1) \<and>
         cur ! ((cy * w + cx) * 2 + 1) = (if in_some_spot random w h cx cy then 1 else 0))) \<and>
    tex_data (initializeTexture random w h t) ! ((cy * w + cx) * 4)
      = (if in_some_spot random w h cx cy then 0 else 1) \<and>
    tex_data (initializeTexture random w h t) ! ((cy * w + cx) * 4 + 1)
      = (if in_some_spot random w h cx cy then 1 else 0)"
proof -
  let ?S = "\<Union>i \<in> {0..<20}. spot_set w h (seed_x random w i) (seed_y random h i)"
  let ?cur = "fold (\<lambda>i. add_spot w h (seed_x random w i) (seed_y random h i)) [0..<20]
        (fill_A (new_Float32Array (w * h * 2)))"
  have c: "cy * w + cx < w * h" using assms(4,5) by (rule cell_index_less)
  have S: "cy * w + cx \<in> ?S \<longleftrightarrow> in_some_spot random w h cx cy"
    using assms by (rule in_some_spot_iff)
  have cpu: "length ?cur = w * h * 2"
    "?cur ! ((cy * w + cx) * 2) = (if in_some_spot random w h cx cy then 0 else 1)"
    "?cur ! ((cy * w + cx) * 2 + 1) = (if in_some_spot random w h cx cy then 1 else 0)"
    using cells_nth [OF initGrid_cells c, of random] unfolding S by blast+
  have gpu: "tex_data (initializeTexture random w h t) ! ((cy * w + cx) * 4)
      = (if in_some_spot random w h cx cy then 0 else 1)"
    "tex_data (initializeTexture random w h t) ! ((cy * w + cx) * 4 + 1)
      = (if in_some_spot random w h cx cy then 1 else 0)"
    using cells_nth [OF initializeTexture_cells c, of random t] unfolding S by blast+
  have "currentGridRef (initGrid random s) = Some ?cur" if "canvasRef s = Some (w, h)"
    using that by (simp add: initGrid_def Let_def)
  then show ?thesis
    using cpu gpu by blast
qed

theorem C9_seed_spots_witness:
  "(\<exists>cur. currentGridRef (initGrid (\<lambda>k. 0)
        \<lparr> canvasRef = Some (2, 2), currentGridRef = None, nextGridRef = None \<rparr>) = Some cur \<and>
      length cur = 2 * 2 * 2 \<and> cur ! ((1 * 2 + 1) * 2) = 0 \<and> cur ! ((1 * 2 + 1) * 2 + 1) = 1) \<and>
   tex_data (initializeTexture (\<lambda>k. 0) 2 2 (empty_texture 2 2)) ! ((1 * 2 + 1) * 4) = 0 \<and>
   tex_data (initializeTexture (\<lambda>k. 0) 2 2 (empty_texture 2 2)) ! ((1 * 2 + 1) * 4 + 1) = 1"
proof -
  let ?s = "\<lparr> canvasRef = Some (2, 2), currentGridRef = None, nextGridRef = None \<rparr>"
  have "(1::int) * 1 + 1 * 1 \<le> 9 \<and> int 1 = (seed_x (\<lambda>k. 0) 2 0 + 1) mod int 2 \<and>
      int 1 = (seed_y (\<lambda>k. 0) 2 0 + 1) mod int 2"
    by (simp add: seed_x_def seed_y_def)
  then have spot: "in_some_spot (\<lambda>k. 0) 2 2 1 1"
    unfolding in_some_spot_def by (intro exI [of _ 0] exI [of _ 1] conjI) simp_all
  have h: "(0::nat) < 2" "\<forall>k::nat. (0::real) \<le> 0 \<and> (0::real) < 1" "(1::nat) < 2"
    by simp_all
  have "canvasRef ?s = Some (2, 2)" by simp
  then show ?thesis
    using spot C9_seed_spots [OF h(1) h(1) h(2) h(3) h(3), of ?s "empty_texture 2 2"]
    by simp
qed



end
